theory Spec2Isabelle
  imports Complex_Main "HOL-Library.Word" "HOL-Library.Multiset" "HOL-Library.Log_Nat"
begin

unbundle bit_operations_syntax

section \<open>JavaScript values\<close>

text \<open>
  A JavaScript string is a sequence of 16-bit UTF-16 code units; \<open>length\<close> counts code
  units, as \<open>String.prototype.length\<close> does. A \<open>Uint8Array\<close> is a list of bytes.
\<close>

type_synonym code_unit = "16 word"
type_synonym jsstring = "code_unit list"
type_synonym byte = "8 word"

text \<open>Conversion of a number in range to a byte and to a code unit (modulo the width).\<close>

definition byte_of_nat :: "nat \<Rightarrow> byte" where
  "byte_of_nat n = of_nat n"

definition unit_of_nat :: "nat \<Rightarrow> code_unit" where
  "unit_of_nat n = of_nat n"

text \<open>String literals of the source whose characters are all below U+0100.\<close>

definition js :: "string \<Rightarrow> jsstring" where
  "js s = map (\<lambda>c. unit_of_nat (of_char c)) s"

text \<open>An exception value: the message of \<open>new Error(message)\<close>, or the name of an exception
  the platform throws.\<close>

datatype js_error = Error string

subsection \<open>Numbers\<close>

text \<open>
  A JavaScript number is an IEEE 754 double. The finite doubles are modelled as the reals
  they denote, and an arithmetic operator returns the double nearest to the exact
  result, a tie going to the even significand. \<open>binade x\<close> is the exponent \<open>e\<close> with
  \<open>2^e \<le> |x| < 2^(e+1)\<close> and \<open>ulp x\<close> the spacing \<open>2^(e-52)\<close> of the doubles there, the
  significand having 53 bits. The exponent is not bounded: the numbers of this
  development stay far inside the normal range, where there is neither overflow nor
  gradual underflow.
\<close>

definition round_half_even :: "real \<Rightarrow> int" where
  "round_half_even y =
     (let f = \<lfloor>y\<rfloor>; d = y - of_int f
      in if d < 1 / 2 then f else if 1 / 2 < d then f + 1 else if even f then f else f + 1)"

definition binade :: "real \<Rightarrow> int" where
  "binade x = (if 1 \<le> \<bar>x\<bar> then bitlen \<lfloor>\<bar>x\<bar>\<rfloor> - 1 else - bitlen (\<lceil>1 / \<bar>x\<bar>\<rceil> - 1))"

definition ulp :: "real \<Rightarrow> real" where
  "ulp x = 2 powi (binade x - 52)"

definition to_double :: "real \<Rightarrow> real" where
  "to_double x = (if x = 0 then 0 else of_int (round_half_even (x / ulp x)) * ulp x)"

text \<open>The operators \<open>+\<close>, \<open>-\<close>, \<open>*\<close> and \<open>/\<close> on numbers.\<close>

definition fadd :: "real \<Rightarrow> real \<Rightarrow> real" where
  "fadd a b = to_double (a + b)"

definition fsub :: "real \<Rightarrow> real \<Rightarrow> real" where
  "fsub a b = to_double (a - b)"

definition fmul :: "real \<Rightarrow> real \<Rightarrow> real" where
  "fmul a b = to_double (a * b)"

definition fdiv :: "real \<Rightarrow> real \<Rightarrow> real" where
  "fdiv a b = to_double (a / b)"

subsection \<open>Dates\<close>

text \<open>
  A \<open>Date\<close> object holds a time value: a whole number of milliseconds since the epoch,
  at most 8.64e15 in absolute value, or \<open>NaN\<close>, and then the date is an Invalid Date.
  \<open>new Date(d)\<close> on a \<open>Date\<close> object copies its time value. \<open>new Date(v)\<close> on a
  number applies \<open>TimeClip\<close>: out of range it gives \<open>NaN\<close>, in range it drops the
  fraction. The operator \<open>>\<close> on two dates compares their time values as numbers, and
  any comparison with \<open>NaN\<close> is false.
\<close>

datatype jsdate = Date int | InvalidDate

definition TimeClip :: "real \<Rightarrow> jsdate" where
  "TimeClip v = (if \<bar>v\<bar> > 8640000000000000 then InvalidDate
                 else Date (if 0 \<le> v then \<lfloor>v\<rfloor> else \<lceil>v\<rceil>))"

definition date_greater :: "jsdate \<Rightarrow> jsdate \<Rightarrow> bool" where
  "date_greater a b =
     (case a of
        InvalidDate \<Rightarrow> False
      | Date x \<Rightarrow> (case b of InvalidDate \<Rightarrow> False | Date y \<Rightarrow> x > y))"

section \<open>Platform encodings used by the source\<close>

subsection \<open>TextEncoder.encode\<close>

text \<open>
  \<open>new TextEncoder().encode(s)\<close> first converts \<open>s\<close> to a sequence of Unicode scalar
  values, replacing every unpaired surrogate by U+FFFD, and then writes each scalar value
  in UTF-8.
\<close>

definition is_high_surrogate :: "code_unit \<Rightarrow> bool" where
  "is_high_surrogate c = (0xD800 \<le> c \<and> c \<le> 0xDBFF)"

definition is_low_surrogate :: "code_unit \<Rightarrow> bool" where
  "is_low_surrogate c = (0xDC00 \<le> c \<and> c \<le> 0xDFFF)"

text \<open>The code point of a surrogate pair.\<close>

definition pair_value :: "code_unit \<Rightarrow> code_unit \<Rightarrow> nat" where
  "pair_value c d = 0x10000 + (unat c - 0xD800) * 0x400 + (unat d - 0xDC00)"

fun scalar_values :: "jsstring \<Rightarrow> nat list" where
  "scalar_values [] = []"
| "scalar_values [c] =
     (if is_high_surrogate c \<or> is_low_surrogate c then [0xFFFD] else [unat c])"
| "scalar_values (c # d # cs) =
     (if is_high_surrogate c then
        (if is_low_surrogate d
         then pair_value c d # scalar_values cs
         else 0xFFFD # scalar_values (d # cs))
      else if is_low_surrogate c then 0xFFFD # scalar_values (d # cs)
      else unat c # scalar_values (d # cs))"

definition utf8_bytes :: "nat \<Rightarrow> byte list" where
  "utf8_bytes cp =
     (if cp < 0x80 then [byte_of_nat cp]
      else if cp < 0x800 then [byte_of_nat (0xC0 + cp div 64), byte_of_nat (0x80 + cp mod 64)]
      else if cp < 0x10000 then
        [byte_of_nat (0xE0 + cp div 4096), byte_of_nat (0x80 + (cp div 64) mod 64),
         byte_of_nat (0x80 + cp mod 64)]
      else
        [byte_of_nat (0xF0 + cp div 262144), byte_of_nat (0x80 + (cp div 4096) mod 64),
         byte_of_nat (0x80 + (cp div 64) mod 64), byte_of_nat (0x80 + cp mod 64)])"

definition TextEncoder_encode :: "jsstring \<Rightarrow> byte list" where
  "TextEncoder_encode s = concat (map utf8_bytes (scalar_values s))"

subsection \<open>TextDecoder.decode\<close>

text \<open>
  \<open>new TextDecoder().decode(bytes)\<close>: the UTF-8 decoder of the Encoding standard in
  replacement mode (\<open>fatal\<close> is false), which emits U+FFFD for every ill-formed byte
  sequence, and with \<open>ignoreBOM\<close> false, which drops a leading U+FEFF from the output.

  \<open>utf8_decoder cp need lo hi bytes\<close> is the decoder in the state where \<open>cp\<close> is the
  code point collected so far, \<open>need\<close> the number of continuation bytes still expected
  and \<open>lo..hi\<close> the range allowed for the next continuation byte. A byte outside the
  range ends the sequence with U+FFFD and is read again in the initial state.
\<close>

function utf8_decoder :: "nat \<Rightarrow> nat \<Rightarrow> nat \<Rightarrow> nat \<Rightarrow> byte list \<Rightarrow> nat list" where
  "utf8_decoder cp need lo hi [] = (if need \<noteq> 0 then [0xFFFD] else [])"
| "utf8_decoder cp need lo hi (b # bs) =
     (let x = unat b in
      if need = 0 then
        (if x \<le> 0x7F then x # utf8_decoder 0 0 0x80 0xBF bs
         else if 0xC2 \<le> x \<and> x \<le> 0xDF then utf8_decoder (x mod 32) 1 0x80 0xBF bs
         else if 0xE0 \<le> x \<and> x \<le> 0xEF then
           utf8_decoder (x mod 16) 2 (if x = 0xE0 then 0xA0 else 0x80)
             (if x = 0xED then 0x9F else 0xBF) bs
         else if 0xF0 \<le> x \<and> x \<le> 0xF4 then
           utf8_decoder (x mod 8) 3 (if x = 0xF0 then 0x90 else 0x80)
             (if x = 0xF4 then 0x8F else 0xBF) bs
         else 0xFFFD # utf8_decoder 0 0 0x80 0xBF bs)
      else if \<not> (lo \<le> x \<and> x \<le> hi) then 0xFFFD # utf8_decoder 0 0 0x80 0xBF (b # bs)
      else
        (let cp' = cp * 64 + x mod 64 in
         if need = 1 then cp' # utf8_decoder 0 0 0x80 0xBF bs
         else utf8_decoder cp' (need - 1) 0x80 0xBF bs))"
  by pat_completeness auto
termination
  by (relation "measure (\<lambda>(cp, need, lo, hi, bs). 2 * length bs + (if need = 0 then 0 else 1))")
     auto

definition utf8_decode :: "byte list \<Rightarrow> nat list" where
  "utf8_decode bytes = utf8_decoder 0 0 0x80 0xBF bytes"

definition strip_bom :: "nat list \<Rightarrow> nat list" where
  "strip_bom cps = (case cps of [] \<Rightarrow> [] | c # rest \<Rightarrow> if c = 0xFEFF then rest else cps)"

definition utf16_units :: "nat \<Rightarrow> jsstring" where
  "utf16_units cp =
     (if cp < 0x10000 then [unit_of_nat cp]
      else [unit_of_nat (0xD800 + (cp - 0x10000) div 0x400),
            unit_of_nat (0xDC00 + (cp - 0x10000) mod 0x400)])"

definition TextDecoder_decode :: "byte list \<Rightarrow> jsstring" where
  "TextDecoder_decode bytes = concat (map utf16_units (strip_bom (utf8_decode bytes)))"

text \<open>\<open>String.prototype.isWellFormed\<close>: no unpaired surrogate.\<close>

fun isWellFormed :: "jsstring \<Rightarrow> bool" where
  "isWellFormed [] = True"
| "isWellFormed [c] = (\<not> is_high_surrogate c \<and> \<not> is_low_surrogate c)"
| "isWellFormed (c # d # cs) =
     (if is_high_surrogate c then is_low_surrogate d \<and> isWellFormed cs
      else \<not> is_low_surrogate c \<and> isWellFormed (d # cs))"

text \<open>A code unit that is not a surrogate.\<close>

definition non_surrogate :: "code_unit \<Rightarrow> bool" where
  "non_surrogate c = (\<not> is_high_surrogate c \<and> \<not> is_low_surrogate c)"

text \<open>A Unicode scalar value: a code point that is not a surrogate.\<close>

definition is_scalar :: "nat \<Rightarrow> bool" where
  "is_scalar cp = (cp < 0x110000 \<and> \<not> (0xD800 \<le> cp \<and> cp \<le> 0xDFFF))"

subsection \<open>btoa and atob\<close>

text \<open>
  The base64 alphabet \<open>A-Z a-z 0-9 + /\<close> by index, and the index of a code unit of the
  alphabet.
\<close>

definition base64_char :: "nat \<Rightarrow> code_unit" where
  "base64_char i =
     (if i < 26 then unit_of_nat (0x41 + i)
      else if i < 52 then unit_of_nat (0x61 + (i - 26))
      else if i < 62 then unit_of_nat (0x30 + (i - 52))
      else if i = 62 then 0x2B
      else 0x2F)"

definition base64_index :: "code_unit \<Rightarrow> nat option" where
  "base64_index c =
     (let x = unat c in
      if 0x41 \<le> x \<and> x \<le> 0x5A then Some (x - 0x41)
      else if 0x61 \<le> x \<and> x \<le> 0x7A then Some (x - 0x61 + 26)
      else if 0x30 \<le> x \<and> x \<le> 0x39 then Some (x - 0x30 + 52)
      else if x = 0x2B then Some 62
      else if x = 0x2F then Some 63
      else None)"

text \<open>The 6-bit groups of a byte sequence; a final group of one or two bytes is filled
  with zero bits.\<close>

fun sextets :: "byte list \<Rightarrow> nat list" where
  "sextets [] = []"
| "sextets [a] = [unat a div 4, (unat a mod 4) * 16]"
| "sextets [a, b] =
     [unat a div 4, (unat a mod 4) * 16 + unat b div 16, (unat b mod 16) * 4]"
| "sextets (a # b # c # rest) =
     [unat a div 4, (unat a mod 4) * 16 + unat b div 16,
      (unat b mod 16) * 4 + unat c div 64, unat c mod 64] @ sextets rest"

definition base64_padding :: "nat \<Rightarrow> jsstring" where
  "base64_padding n = replicate ((3 - n mod 3) mod 3) 0x3D"

definition base64_encode :: "byte list \<Rightarrow> jsstring" where
  "base64_encode bytes = map base64_char (sextets bytes) @ base64_padding (length bytes)"

text \<open>
  \<open>btoa(s)\<close> throws \<open>InvalidCharacterError\<close> when \<open>s\<close> has a code unit above 0xFF;
  otherwise each code unit is one byte.
\<close>

definition btoa :: "jsstring \<Rightarrow> js_error + jsstring" where
  "btoa s =
     (if \<exists>c \<in> set s. 0xFF < c then Inl (Error ''InvalidCharacterError'')
      else Inr (base64_encode (map ucast s)))"

text \<open>
  \<open>atob(s)\<close> is the forgiving-base64 decode of the Infra standard: ASCII whitespace is
  removed; when the length is then a multiple of 4, one or two trailing \<open>=\<close> are removed;
  a length of 1 modulo 4 and any code unit outside the alphabet are failures; the bits of
  a final group of two or three characters beyond whole bytes are discarded unchecked.
\<close>

definition is_ascii_whitespace :: "code_unit \<Rightarrow> bool" where
  "is_ascii_whitespace c = (c = 0x09 \<or> c = 0x0A \<or> c = 0x0C \<or> c = 0x0D \<or> c = 0x20)"

definition remove_one_padding :: "jsstring \<Rightarrow> jsstring" where
  "remove_one_padding d = (if d \<noteq> [] \<and> last d = 0x3D then butlast d else d)"

definition remove_padding :: "jsstring \<Rightarrow> jsstring" where
  "remove_padding d =
     (if length d mod 4 = 0 then remove_one_padding (remove_one_padding d) else d)"

fun sextets_to_bytes :: "nat list \<Rightarrow> byte list" where
  "sextets_to_bytes (a # b # c # d # rest) =
     (let n = ((a * 64 + b) * 64 + c) * 64 + d
      in [byte_of_nat (n div 65536), byte_of_nat ((n div 256) mod 256), byte_of_nat (n mod 256)]
         @ sextets_to_bytes rest)"
| "sextets_to_bytes [a, b, c] =
     (let n = ((a * 64 + b) * 64 + c) div 4
      in [byte_of_nat (n div 256), byte_of_nat (n mod 256)])"
| "sextets_to_bytes [a, b] = (let n = (a * 64 + b) div 16 in [byte_of_nat n])"
| "sextets_to_bytes [a] = []"
| "sextets_to_bytes [] = []"

fun those_indices :: "jsstring \<Rightarrow> nat list option" where
  "those_indices [] = Some []"
| "those_indices (c # cs) =
     (case base64_index c of
        None \<Rightarrow> None
      | Some i \<Rightarrow> (case those_indices cs of None \<Rightarrow> None | Some is \<Rightarrow> Some (i # is)))"

definition atob :: "jsstring \<Rightarrow> js_error + jsstring" where
  "atob s =
     (let d = filter (\<lambda>c. \<not> is_ascii_whitespace c) s;
          d = remove_padding d
      in if length d mod 4 = 1 then Inl (Error ''InvalidCharacterError'')
         else (case those_indices d of
                 None \<Rightarrow> Inl (Error ''InvalidCharacterError'')
               | Some vs \<Rightarrow> Inr (map ucast (sextets_to_bytes vs))))"

section \<open>SecurityAnalyzer (src/utils/security.ts)\<close>

subsection \<open>Character classes of the regular expressions\<close>

text \<open>\<open>/[a-z]/\<close>, \<open>/[A-Z]/\<close>, \<open>/\d/\<close> (no unicode flag: ASCII digits only).\<close>

definition is_lower :: "code_unit \<Rightarrow> bool" where
  "is_lower c = (0x61 \<le> c \<and> c \<le> 0x7A)"

definition is_upper :: "code_unit \<Rightarrow> bool" where
  "is_upper c = (0x41 \<le> c \<and> c \<le> 0x5A)"

definition is_digit :: "code_unit \<Rightarrow> bool" where
  "is_digit c = (0x30 \<le> c \<and> c \<le> 0x39)"

text \<open>
  The class \<^verbatim>\<open>[!@#$%^&*(),.?":{}|<>]\<close>, member by member in the order of the source:
  ! @ # $ % ^ & * ( ) , . ? " : { } | < >
\<close>

definition symbol_set :: "code_unit list" where
  "symbol_set = [0x21, 0x40, 0x23, 0x24, 0x25, 0x5E, 0x26, 0x2A, 0x28, 0x29,
                 0x2C, 0x2E, 0x3F, 0x22, 0x3A, 0x7B, 0x7D, 0x7C, 0x3C, 0x3E]"

definition is_symbol :: "code_unit \<Rightarrow> bool" where
  "is_symbol c = (c \<in> set symbol_set)"

text \<open>
  \<open>RegExp.prototype.test\<close> for a pattern that is one character class: the string is
  scanned from the left and the first code unit of the class is a match.
\<close>

fun regex_test :: "(code_unit \<Rightarrow> bool) \<Rightarrow> jsstring \<Rightarrow> bool" where
  "regex_test cls [] = False"
| "regex_test cls (c # cs) = (if cls c then True else regex_test cls cs)"

subsection \<open>calculatePasswordStrength\<close>

definition calculatePasswordStrength :: "jsstring \<Rightarrow> int" where
  "calculatePasswordStrength password =
     (let score = 0;
          score = (if length password \<ge> 8 then score + 25 else score);
          score = (if length password \<ge> 12 then score + 25 else score);
          score = (if regex_test is_lower password \<and> regex_test is_upper password
                   then score + 20 else score);
          score = (if regex_test is_digit password then score + 15 else score);
          score = (if regex_test is_symbol password then score + 15 else score)
      in min 100 score)"

text \<open>The scoring rule in the words of the specification, as a sum of five bonuses.\<close>

definition spec_strength :: "jsstring \<Rightarrow> int" where
  "spec_strength s =
     min 100
       ((if length s \<ge> 8 then 25 else 0)
        + (if length s \<ge> 12 then 25 else 0)
        + (if (\<exists>c \<in> set s. is_lower c) \<and> (\<exists>c \<in> set s. is_upper c) then 20 else 0)
        + (if (\<exists>c \<in> set s. is_digit c) then 15 else 0)
        + (if (\<exists>c \<in> set s. is_symbol c) then 15 else 0))"

subsection \<open>The entry data model (types)\<close>

text \<open>
  \<open>PasswordEntry\<close>, with the property types of the declaration; an optional property
  is an \<open>option\<close>, \<open>None\<close> for \<open>undefined\<close>. The dates are \<open>Date\<close> objects, as
  declared; a date that cannot be parsed from its text is an Invalid Date.
\<close>

datatype field_type = TextField | PasswordField | EmailField | UrlField

record PasswordEntry =
  entry_id :: jsstring
  title :: jsstring
  username :: jsstring
  password :: jsstring
  url :: "jsstring option"
  entry_notes :: "jsstring option"
  category :: jsstring
  createdAt :: jsdate
  updatedAt :: jsdate
  isFavorite :: "bool option"
  tags :: "jsstring list option"
  lastUsed :: "jsdate option"
  expiryDate :: "jsdate option"
  isCompromised :: "bool option"
  strength :: "int option"
  twoFactorSecret :: "jsstring option"
  customFields :: "(jsstring \<times> jsstring \<times> field_type) list option"

subsection \<open>findReusedPasswords\<close>

text \<open>
  A JavaScript \<open>Map\<close> keeps its keys in insertion order and \<open>forEach\<close> visits them in
  that order; \<open>set\<close> on a key that is present replaces the value where it stands.
\<close>

type_synonym ('k, 'v) jsmap = "('k \<times> 'v) list"

fun jsmap_get :: "('k, 'v) jsmap \<Rightarrow> 'k \<Rightarrow> 'v option" where
  "jsmap_get [] k = None"
| "jsmap_get ((k', v) # m) k = (if k' = k then Some v else jsmap_get m k)"

fun jsmap_set :: "('k, 'v) jsmap \<Rightarrow> 'k \<Rightarrow> 'v \<Rightarrow> ('k, 'v) jsmap" where
  "jsmap_set [] k v = [(k, v)]"
| "jsmap_set ((k', v') # m) k v = (if k' = k then (k, v) # m else (k', v') # jsmap_set m k v)"

text \<open>The body of the first \<open>forEach\<close>: fetch the group (or a new array), push, store.\<close>

definition group_entry ::
  "(jsstring, PasswordEntry list) jsmap \<Rightarrow> PasswordEntry \<Rightarrow> (jsstring, PasswordEntry list) jsmap"
where
  "group_entry passwordMap entry =
     (let existing = (case jsmap_get passwordMap (password entry) of
                        Some es \<Rightarrow> es | None \<Rightarrow> []);
          existing = existing @ [entry]
      in jsmap_set passwordMap (password entry) existing)"

text \<open>The body of the second \<open>forEach\<close>: groups of more than one entry are pushed whole.\<close>

definition collect_reused ::
  "PasswordEntry list \<Rightarrow> jsstring \<times> PasswordEntry list \<Rightarrow> PasswordEntry list"
where
  "collect_reused reused kv =
     (let entries = snd kv in if length entries > 1 then reused @ entries else reused)"

definition findReusedPasswords :: "PasswordEntry list \<Rightarrow> PasswordEntry list" where
  "findReusedPasswords passwords =
     (let passwordMap = foldl group_entry [] passwords
      in foldl collect_reused [] passwordMap)"

subsection \<open>isPasswordExpired\<close>

text \<open>
  \<open>now\<close> is the time value of the \<open>new Date()\<close> of the call, the reading of the clock;
  \<open>expiryDays\<close> is a number, 90 by default. Without an expiry date the function adds
  \<open>expiryDays * 24 * 60 * 60 * 1000\<close> to the time value of the creation date, a
  \<open>NaN\<close> staying \<open>NaN\<close>, and makes a date of the sum.
\<close>

definition isPasswordExpired :: "int \<Rightarrow> PasswordEntry \<Rightarrow> real \<Rightarrow> bool" where
  "isPasswordExpired now p expiryDays =
     (case expiryDate p of
        None \<Rightarrow>
          (let createdDate = createdAt p;
               expiry =
                 (case createdDate of
                    InvalidDate \<Rightarrow> InvalidDate
                  | Date t \<Rightarrow>
                      TimeClip (fadd (of_int t)
                                  (fmul (fmul (fmul (fmul expiryDays 24) 60) 60) 1000)))
           in date_greater (Date now) expiry)
      | Some e \<Rightarrow> date_greater (Date now) e)"

subsection \<open>analyzePasswordSecurity\<close>

text \<open>
  The report. \<open>readings\<close> gives the readings of the successive \<open>new Date()\<close> calls: the
  filter for expired entries takes one reading for each entry, in list order, and the
  report's \<open>lastUpdated\<close> takes the next. The lengths are whole numbers, exact as
  doubles; the score is computed with the operators on numbers.
\<close>

record SecurityReport =
  weakPasswords :: nat
  reusedPasswords :: nat
  expiredPasswords :: nat
  compromisedPasswords :: nat
  totalPasswords :: nat
  securityScore :: real
  lastUpdated :: jsdate
  weakPasswordsList :: "PasswordEntry list"
  reusedPasswordsList :: "PasswordEntry list"
  expiredPasswordsList :: "PasswordEntry list"
  compromisedPasswordsList :: "PasswordEntry list"

definition analyzePasswordSecurity :: "(nat \<Rightarrow> int) \<Rightarrow> PasswordEntry list \<Rightarrow> SecurityReport" where
  "analyzePasswordSecurity readings passwords =
     (let weak = filter (\<lambda>p. calculatePasswordStrength (password p) < 60) passwords;
          reused = findReusedPasswords passwords;
          expired = map snd (filter (\<lambda>(i, p). isPasswordExpired (readings i) p 90)
                               (zip [0 ..< length passwords] passwords));
          compromised = filter (\<lambda>p. isCompromised p = Some True) passwords;
          score =
            (if length passwords > 0 then
               (let weakPenalty =
                      fmul (fdiv (real (length weak)) (real (length passwords))) 30;
                    reusedPenalty =
                      fmul (fdiv (real (length reused)) (real (length passwords))) 25;
                    expiredPenalty =
                      fmul (fdiv (real (length expired)) (real (length passwords))) 20;
                    compromisedPenalty =
                      fmul (fdiv (real (length compromised)) (real (length passwords))) 25
                in max 0 (fsub (fsub (fsub (fsub 100 weakPenalty) reusedPenalty)
                                  expiredPenalty) compromisedPenalty))
             else 100)
      in \<lparr> weakPasswords = length weak,
           reusedPasswords = length reused,
           expiredPasswords = length expired,
           compromisedPasswords = length compromised,
           totalPasswords = length passwords,
           securityScore = score,
           lastUpdated = Date (readings (length passwords)),
           weakPasswordsList = weak,
           reusedPasswordsList = reused,
           expiredPasswordsList = expired,
           compromisedPasswordsList = compromised \<rparr>)"

section \<open>CryptoManager (utils/crypto)\<close>

subsection \<open>The platform: WebCrypto, the random source, the argument limit\<close>

text \<open>
  The algorithm dictionaries passed to \<open>crypto.subtle\<close>, field by field.
\<close>

record pbkdf2_params =
  kdf_name :: string
  kdf_salt :: "byte list"
  kdf_iterations :: nat
  kdf_hash :: string

record aes_key_params =
  key_name :: string
  key_length :: nat

record aes_gcm_params =
  gcm_name :: string
  gcm_iv :: "byte list"
  gcm_tagLength :: nat

text \<open>
  \<open>crypto.subtle\<close> is a parameter of the model. \<open>subtle_deriveKey\<close> receives the key
  material imported from the password bytes; \<open>subtle_decrypt\<close> is \<open>None\<close> when the
  promise rejects (the tag does not verify, or the input is shorter than the tag);
  \<open>subtle_digest\<close> may reject. \<open>max_arguments\<close> is the engine's limit on the number of
  arguments of one call: \<open>String.fromCharCode(...combined)\<close> throws a \<open>RangeError\<close>
  above it.
\<close>

record 'key webcrypto =
  subtle_deriveKey :: "pbkdf2_params \<Rightarrow> byte list \<Rightarrow> aes_key_params \<Rightarrow> 'key"
  subtle_encrypt :: "aes_gcm_params \<Rightarrow> 'key \<Rightarrow> byte list \<Rightarrow> byte list"
  subtle_decrypt :: "aes_gcm_params \<Rightarrow> 'key \<Rightarrow> byte list \<Rightarrow> byte list option"
  subtle_digest :: "string \<Rightarrow> byte list \<Rightarrow> js_error + byte list"
  max_arguments :: nat

text \<open>
  The random source is the sequence of bytes it will deliver; \<open>crypto.getRandomValues\<close>
  on a new \<open>Uint8Array(n)\<close> takes the next \<open>n\<close> of them.
\<close>

type_synonym rng = "nat \<Rightarrow> byte"

definition getRandomValues :: "nat \<Rightarrow> rng \<Rightarrow> byte list \<times> rng" where
  "getRandomValues n r = (map r [0..<n], \<lambda>i. r (n + i))"

text \<open>\<open>String.fromCharCode(...bytes)\<close>: one code unit per byte, or a \<open>RangeError\<close>.\<close>

definition fromCharCode_spread :: "nat \<Rightarrow> byte list \<Rightarrow> js_error + jsstring" where
  "fromCharCode_spread limit bytes =
     (if length bytes > limit then Inl (Error ''RangeError'') else Inr (map ucast bytes))"

text \<open>\<open>new Uint8Array(s.split('').map(char => char.charCodeAt(0)))\<close>: each code unit
  modulo 256.\<close>

definition charCodes_to_bytes :: "jsstring \<Rightarrow> byte list" where
  "charCodes_to_bytes s = map ucast s"

subsection \<open>Constants\<close>

definition PBKDF2_ITERATIONS :: nat where
  "PBKDF2_ITERATIONS = 210000"

definition SALT_LENGTH :: nat where
  "SALT_LENGTH = 32"

definition IV_LENGTH :: nat where
  "IV_LENGTH = 16"

definition KEY_LENGTH :: nat where
  "KEY_LENGTH = 32"

subsection \<open>deriveKey, encrypt, decrypt\<close>

definition deriveKey :: "'key webcrypto \<Rightarrow> jsstring \<Rightarrow> byte list \<Rightarrow> 'key" where
  "deriveKey api password_text salt =
     (let passwordBuffer = TextEncoder_encode password_text;
          keyMaterial = passwordBuffer
      in subtle_deriveKey api
           \<lparr> kdf_name = ''PBKDF2'', kdf_salt = salt, kdf_iterations = PBKDF2_ITERATIONS,
             kdf_hash = ''SHA-256'' \<rparr>
           keyMaterial
           \<lparr> key_name = ''AES-GCM'', key_length = KEY_LENGTH * 8 \<rparr>)"

text \<open>
  \<open>encrypt\<close> returns the promise's outcome and the random source after the two draws.
  Every exception inside the \<open>try\<close> is rethrown as \<open>Error('Encryption failed')\<close>.
\<close>

definition encrypt ::
  "'key webcrypto \<Rightarrow> rng \<Rightarrow> jsstring \<Rightarrow> jsstring \<Rightarrow> (js_error + jsstring) \<times> rng"
where
  "encrypt api r0 data password_text =
     (let dataBuffer = TextEncoder_encode data;
          (salt, r1) = getRandomValues SALT_LENGTH r0;
          (iv, r2) = getRandomValues IV_LENGTH r1;
          key = deriveKey api password_text salt;
          encryptedArray =
            subtle_encrypt api
              \<lparr> gcm_name = ''AES-GCM'', gcm_iv = iv, gcm_tagLength = 128 \<rparr> key dataBuffer;
          combined = salt @ iv @ encryptedArray
      in (case fromCharCode_spread (max_arguments api) combined of
            Inl e \<Rightarrow> Inl (Error ''Encryption failed'')
          | Inr binary \<Rightarrow>
              (case btoa binary of
                 Inl e \<Rightarrow> Inl (Error ''Encryption failed'')
               | Inr encoded \<Rightarrow> Inr encoded),
          r2))"

text \<open>
  \<open>decrypt\<close>: every exception inside the \<open>try\<close> is rethrown as
  \<open>Error('Invalid password or corrupted data')\<close>. \<open>slice\<close> past the end of a typed
  array yields what is there.
\<close>

definition decrypt :: "'key webcrypto \<Rightarrow> jsstring \<Rightarrow> jsstring \<Rightarrow> js_error + jsstring" where
  "decrypt api encryptedData password_text =
     (case atob encryptedData of
        Inl e \<Rightarrow> Inl (Error ''Invalid password or corrupted data'')
      | Inr binary \<Rightarrow>
          (let combined = charCodes_to_bytes binary;
               salt = take SALT_LENGTH combined;
               iv = take IV_LENGTH (drop SALT_LENGTH combined);
               encryptedBuffer = drop (SALT_LENGTH + IV_LENGTH) combined;
               key = deriveKey api password_text salt
           in (case subtle_decrypt api
                      \<lparr> gcm_name = ''AES-GCM'', gcm_iv = iv, gcm_tagLength = 128 \<rparr>
                      key encryptedBuffer of
                 None \<Rightarrow> Inl (Error ''Invalid password or corrupted data'')
               | Some decryptedBuffer \<Rightarrow> Inr (TextDecoder_decode decryptedBuffer))))"

text \<open>
  Names for what one call of \<open>encrypt\<close> draws and computes: the salt is the first 32
  bytes of the random source, the nonce the next 16, and the ciphertext (with its tag) is
  what \<open>crypto.subtle.encrypt\<close> returns under the derived key.
\<close>

definition drawn_salt :: "rng \<Rightarrow> byte list" where
  "drawn_salt r = map r [0..<32]"

definition drawn_iv :: "rng \<Rightarrow> byte list" where
  "drawn_iv r = map r [32..<48]"

definition ciphertext_of :: "'key webcrypto \<Rightarrow> rng \<Rightarrow> jsstring \<Rightarrow> jsstring \<Rightarrow> byte list" where
  "ciphertext_of api r data password_text =
     subtle_encrypt api
       \<lparr> gcm_name = ''AES-GCM'', gcm_iv = drawn_iv r, gcm_tagLength = 128 \<rparr>
       (subtle_deriveKey api
          \<lparr> kdf_name = ''PBKDF2'', kdf_salt = drawn_salt r, kdf_iterations = 210000,
            kdf_hash = ''SHA-256'' \<rparr>
          (TextEncoder_encode password_text)
          \<lparr> key_name = ''AES-GCM'', key_length = 256 \<rparr>)
       (TextEncoder_encode data)"

text \<open>
  What the model asks of AES-GCM. Decryption inverts encryption under the same key,
  nonce and tag length; and an input shorter than the 16-byte tag is rejected.
\<close>

definition decrypt_inverts_encrypt :: "'key webcrypto \<Rightarrow> bool" where
  "decrypt_inverts_encrypt api =
     (\<forall>params key plaintext.
        subtle_decrypt api params key (subtle_encrypt api params key plaintext)
          = Some plaintext)"


subsection \<open>A small executable platform\<close>

text \<open>
  An instance of the platform record on which the functions above can be evaluated. It
  has the interface of WebCrypto and none of its strength: the key is the key material
  followed by the salt, the ciphertext is the plaintext followed by sixteen copies of a
  one-byte sum over key, nonce and plaintext, and the digest is the identity.
\<close>

definition byte_sum :: "byte list \<Rightarrow> byte" where
  "byte_sum bytes = foldr (+) bytes 0"

definition demo_tag :: "byte list \<Rightarrow> byte list \<Rightarrow> byte list \<Rightarrow> byte list" where
  "demo_tag key iv bytes = replicate 16 (byte_sum (key @ iv @ bytes))"

definition demo_crypto :: "(byte list) webcrypto" where
  "demo_crypto =
     \<lparr> subtle_deriveKey = (\<lambda>params material keyparams. material @ kdf_salt params),
       subtle_encrypt = (\<lambda>params key bytes. bytes @ demo_tag key (gcm_iv params) bytes),
       subtle_decrypt = (\<lambda>params key input.
          if length input < 16 then None
          else (let bytes = take (length input - 16) input;
                    tag = drop (length input - 16) input
                in if tag = demo_tag key (gcm_iv params) bytes then Some bytes else None)),
       subtle_digest = (\<lambda>algorithm bytes. Inr bytes),
       max_arguments = 65535 \<rparr>"

definition demo_rng :: rng where
  "demo_rng = (\<lambda>i. byte_of_nat (7 * i + 3))"

text \<open>
  The blob that \<open>encrypt\<close> returns on this platform for the plaintext \<open>abc\<close> and the
  passphrase \<open>pw\<close>, and the 67 bytes it encodes; the same text with the bit of value 2
  flipped in its character 89 (\<open>Q\<close> becomes \<open>S\<close>), with its two padding characters cut
  off, and with the bit of value 2 flipped in its first character (\<open>A\<close> becomes \<open>C\<close>,
  which changes the first salt byte).
\<close>

definition sample_blob :: jsstring where
  "sample_blob = js ''AwoRGB8mLTQ7QklQV15lbHN6gYiPlp2kq7K5wMfO1dzj6vH4/wYNFBsiKTA3PkVMYWJjdXV1dXV1dXV1dXV1dXV1dQ==''"





text \<open>A plaintext of 65536 letters \<open>a\<close>: with salt, nonce and tag it makes more bytes
  than this platform accepts as arguments of one call.\<close>

definition long_plaintext :: jsstring where
  "long_plaintext = replicate 65536 0x61"

section \<open>SecurityAnalyzer.checkPasswordBreach\<close>

text \<open>
  \<open>Number.prototype.toString(16)\<close> on a byte, \<open>padStart(2, '0')\<close>, and \<open>toUpperCase\<close>
  (on the ASCII letters; the strings it is applied to here hold hexadecimal digits only).
\<close>

definition hex_digit :: "nat \<Rightarrow> code_unit" where
  "hex_digit n = (if n < 10 then unit_of_nat (0x30 + n) else unit_of_nat (0x61 + (n - 10)))"

definition toString16 :: "byte \<Rightarrow> jsstring" where
  "toString16 b =
     (if unat b < 16 then [hex_digit (unat b)]
      else [hex_digit (unat b div 16), hex_digit (unat b mod 16)])"

definition padStart2 :: "jsstring \<Rightarrow> jsstring" where
  "padStart2 s = replicate (2 - length s) 0x30 @ s"

definition toUpperCase :: "jsstring \<Rightarrow> jsstring" where
  "toUpperCase s = map (\<lambda>c. if is_lower c then c - 0x20 else c) s"

text \<open>\<open>String.prototype.includes\<close>: the argument occurs as a contiguous substring.\<close>

fun string_includes :: "jsstring \<Rightarrow> jsstring \<Rightarrow> bool" where
  "string_includes [] s = (s = [])"
| "string_includes (c # cs) s = (take (length s) (c # cs) = s \<or> string_includes cs s)"

text \<open>
  The network: \<open>fetch(url)\<close> and \<open>response.text()\<close>, each of which may reject.
\<close>

record 'resp network =
  fetch :: "jsstring \<Rightarrow> js_error + 'resp"
  response_text :: "'resp \<Rightarrow> js_error + jsstring"

text \<open>The body of the \<open>try\<close> block: \<open>Inl\<close> is an exception thrown inside it.\<close>

definition breach_lookup ::
  "'key webcrypto \<Rightarrow> 'resp network \<Rightarrow> jsstring \<Rightarrow> js_error + bool"
where
  "breach_lookup api net password_text =
     (let data = TextEncoder_encode password_text
      in case subtle_digest api ''SHA-1'' data of
           Inl e \<Rightarrow> Inl e
         | Inr hashArray \<Rightarrow>
             (let hashHex = toUpperCase (concat (map (\<lambda>b. padStart2 (toString16 b)) hashArray));
                  prefix = take 5 hashHex;
                  suffix = drop 5 hashHex
              in case fetch net (js ''https://api.pwnedpasswords.com/range/'' @ prefix) of
                   Inl e \<Rightarrow> Inl e
                 | Inr response \<Rightarrow>
                     (case response_text net response of
                        Inl e \<Rightarrow> Inl e
                      | Inr body \<Rightarrow> Inr (string_includes body suffix))))"

text \<open>
  \<open>checkPasswordBreach\<close>: the settled promise, \<open>Inl\<close> for a rejection and \<open>Inr\<close> for the
  value it resolves to. The \<open>catch\<close> clause logs and returns false.
\<close>

definition checkPasswordBreach ::
  "'key webcrypto \<Rightarrow> 'resp network \<Rightarrow> jsstring \<Rightarrow> js_error + bool"
where
  "checkPasswordBreach api net password_text =
     (case breach_lookup api net password_text of
        Inl e \<Rightarrow> Inr False
      | Inr compromised \<Rightarrow> Inr compromised)"

text \<open>A network that is down, and one that answers every request with a fixed body.\<close>

definition offline_network :: "unit network" where
  "offline_network =
     \<lparr> fetch = (\<lambda>u. Inl (Error ''TypeError: Failed to fetch'')),
       response_text = (\<lambda>r. Inr []) \<rparr>"

text \<open>A platform whose digest rejects, and a network whose response body cannot be
  read.\<close>

definition rejecting_digest_crypto :: "(byte list) webcrypto" where
  "rejecting_digest_crypto =
     demo_crypto\<lparr> subtle_digest := (\<lambda>algorithm bytes. Inl (Error ''OperationError'')) \<rparr>"

definition unreadable_network :: "unit network" where
  "unreadable_network =
     \<lparr> fetch = (\<lambda>u. Inr ()),
       response_text = (\<lambda>r. Inl (Error ''TypeError: body stream'')) \<rparr>"

section \<open>AppContext (context/AppContext)\<close>

subsection \<open>Application state and reducer\<close>

record Category =
  cat_id :: jsstring
  cat_name :: jsstring
  color :: jsstring
  icon :: jsstring

definition defaultCategories :: "Category list" where
  "defaultCategories =
     [\<lparr> cat_id = js ''1'', cat_name = js ''Personal'', color = js ''#3B82F6'', icon = js ''User'' \<rparr>,
      \<lparr> cat_id = js ''2'', cat_name = js ''Work'', color = js ''#EF4444'', icon = js ''Briefcase'' \<rparr>,
      \<lparr> cat_id = js ''3'', cat_name = js ''Social'', color = js ''#10B981'', icon = js ''Users'' \<rparr>,
      \<lparr> cat_id = js ''4'', cat_name = js ''Finance'', color = js ''#F59E0B'', icon = js ''CreditCard'' \<rparr>,
      \<lparr> cat_id = js ''5'', cat_name = js ''Shopping'', color = js ''#8B5CF6'', icon = js ''ShoppingBag'' \<rparr>]"

text \<open>
  \<open>Settings\<close> and \<open>Partial<Settings>\<close> are objects: maps from property names to values.
  The spread \<open>{...a, ...b}\<close> is the map \<open>a ++ b\<close>.
\<close>

datatype jsvalue = JNumber int | JString jsstring | JBoolean bool

type_synonym jsobject = "string \<rightharpoonup> jsvalue"

definition defaultSettings :: jsobject where
  "defaultSettings =
     [''autoLockMinutes'' \<mapsto> JNumber 15,
      ''theme'' \<mapsto> JString (js ''light''),
      ''showPasswordStrength'' \<mapsto> JBoolean True,
      ''compactView'' \<mapsto> JBoolean False,
      ''enableBiometric'' \<mapsto> JBoolean False,
      ''autoFillEnabled'' \<mapsto> JBoolean True,
      ''passwordExpiryDays'' \<mapsto> JNumber 90,
      ''enableBreachCheck'' \<mapsto> JBoolean True,
      ''enableTwoFactor'' \<mapsto> JBoolean False,
      ''backupFrequency'' \<mapsto> JString (js ''weekly''),
      ''language'' \<mapsto> JString (js ''en'')]"

record AppState =
  isAuthenticated :: bool
  passwords :: "PasswordEntry list"
  categories :: "Category list"
  searchQuery :: jsstring
  selectedCategory :: "jsstring option"
  showPasswordGenerator :: bool
  editingPassword :: "PasswordEntry option"
  settings :: jsobject

definition initialState :: AppState where
  "initialState =
     \<lparr> isAuthenticated = False, passwords = [], categories = defaultCategories,
       searchQuery = [], selectedCategory = None, showPasswordGenerator = False,
       editingPassword = None, settings = defaultSettings \<rparr>"

datatype Action =
    LOGIN
  | LOGOUT
  | SET_PASSWORDS "PasswordEntry list"
  | ADD_PASSWORD PasswordEntry
  | UPDATE_PASSWORD PasswordEntry
  | DELETE_PASSWORD jsstring
  | SET_SEARCH_QUERY jsstring
  | SET_SELECTED_CATEGORY "jsstring option"
  | SET_SHOW_PASSWORD_GENERATOR bool
  | SET_EDITING_PASSWORD "PasswordEntry option"
  | ADD_CATEGORY Category
  | UPDATE_SETTINGS jsobject
  | CLEAR_ALL_DATA

fun appReducer :: "AppState \<Rightarrow> Action \<Rightarrow> AppState" where
  "appReducer state LOGIN = state\<lparr> isAuthenticated := True \<rparr>"
| "appReducer state LOGOUT = initialState"
| "appReducer state (SET_PASSWORDS payload) = state\<lparr> passwords := payload \<rparr>"
| "appReducer state (ADD_PASSWORD payload) = state\<lparr> passwords := passwords state @ [payload] \<rparr>"
| "appReducer state (UPDATE_PASSWORD payload) =
     state\<lparr> passwords :=
       map (\<lambda>p. if entry_id p = entry_id payload then payload else p) (passwords state) \<rparr>"
| "appReducer state (DELETE_PASSWORD payload) =
     state\<lparr> passwords := filter (\<lambda>p. entry_id p \<noteq> payload) (passwords state) \<rparr>"
| "appReducer state (SET_SEARCH_QUERY payload) = state\<lparr> searchQuery := payload \<rparr>"
| "appReducer state (SET_SELECTED_CATEGORY payload) = state\<lparr> selectedCategory := payload \<rparr>"
| "appReducer state (SET_SHOW_PASSWORD_GENERATOR payload) =
     state\<lparr> showPasswordGenerator := payload \<rparr>"
| "appReducer state (SET_EDITING_PASSWORD payload) = state\<lparr> editingPassword := payload \<rparr>"
| "appReducer state (ADD_CATEGORY payload) =
     state\<lparr> categories := categories state @ [payload] \<rparr>"
| "appReducer state (UPDATE_SETTINGS payload) =
     state\<lparr> settings := settings state ++ payload \<rparr>"
| "appReducer state CLEAR_ALL_DATA = initialState\<lparr> isAuthenticated := True \<rparr>"

subsection \<open>importData\<close>



subsection \<open>Storage and user registry\<close>

text \<open>
  \<open>localStorage\<close> holds the vault blobs under their storage keys and, under
  \<open>passwordManager_users\<close>, the JSON of the user list as the application writes it;
  the list is kept parsed. A storage key \<open>passwordManager_\<close> followed by hexadecimal
  digits is never the key of the list. \<open>sessionStorage\<close> maps item names to strings.
  \<open>clock\<close> is the sequence of values that successive \<open>new Date().toISOString()\<close>
  calls return. \<open>write_faults\<close> is the sequence of outcomes of the successive
  \<open>setItem\<close> calls on either storage: true where the call throws a
  \<open>QuotaExceededError\<close> and stores nothing.
\<close>

record UserInfo =
  user_hash :: jsstring
  user_createdAt :: jsstring
  lastLogin :: jsstring
  hint :: jsstring

record world =
  localVaults :: "jsstring \<rightharpoonup> jsstring"
  localUsers :: "UserInfo list option"
  sessionItems :: "string \<rightharpoonup> jsstring"
  app :: AppState
  random :: rng
  clock :: "nat \<Rightarrow> jsstring"
  write_faults :: "nat \<Rightarrow> bool"

definition toISOString_now :: "world \<Rightarrow> jsstring \<times> world" where
  "toISOString_now w = (clock w 0, w\<lparr> clock := (\<lambda>i. clock w (Suc i)) \<rparr>)"

definition dispatch :: "Action \<Rightarrow> world \<Rightarrow> world" where
  "dispatch action w = w\<lparr> app := appReducer (app w) action \<rparr>"

text \<open>
  \<open>getItem\<close> and \<open>setItem\<close> on the vault keys of \<open>localStorage\<close>, \<open>setItem\<close> on the
  key of the user list and on \<open>sessionStorage\<close>. A \<open>setItem\<close> returns the exception it
  throws, if any, and the world it leaves. A stored string is truthy when it is present
  and not empty.
\<close>

definition localStorage_getItem :: "world \<Rightarrow> jsstring \<Rightarrow> jsstring option" where
  "localStorage_getItem w k = localVaults w k"

definition after_write :: "world \<Rightarrow> world" where
  "after_write w = w\<lparr> write_faults := (\<lambda>i. write_faults w (Suc i)) \<rparr>"

definition localStorage_setItem ::
  "jsstring \<Rightarrow> jsstring \<Rightarrow> world \<Rightarrow> js_error option \<times> world" where
  "localStorage_setItem k v w =
     (if write_faults w 0 then (Some (Error ''QuotaExceededError''), after_write w)
      else (None, after_write (w\<lparr> localVaults := (localVaults w)(k \<mapsto> v) \<rparr>)))"

definition localStorage_setUsers ::
  "UserInfo list \<Rightarrow> world \<Rightarrow> js_error option \<times> world" where
  "localStorage_setUsers users w =
     (if write_faults w 0 then (Some (Error ''QuotaExceededError''), after_write w)
      else (None, after_write (w\<lparr> localUsers := Some users \<rparr>)))"

definition sessionStorage_setItem ::
  "string \<Rightarrow> jsstring \<Rightarrow> world \<Rightarrow> js_error option \<times> world" where
  "sessionStorage_setItem k v w =
     (if write_faults w 0 then (Some (Error ''QuotaExceededError''), after_write w)
      else (None, after_write (w\<lparr> sessionItems := (sessionItems w)(k \<mapsto> v) \<rparr>)))"

definition truthy :: "jsstring option \<Rightarrow> bool" where
  "truthy item = (case item of None \<Rightarrow> False | Some s \<Rightarrow> s \<noteq> [])"

text \<open>\<open>getUserHash\<close>: the SHA-256 digest in lowercase hexadecimal.\<close>

definition getUserHash :: "'key webcrypto \<Rightarrow> jsstring \<Rightarrow> js_error + jsstring" where
  "getUserHash api masterPassword =
     (let data = TextEncoder_encode masterPassword
      in case subtle_digest api ''SHA-256'' data of
           Inl e \<Rightarrow> Inl e
         | Inr hashArray \<Rightarrow> Inr (concat (map (\<lambda>b. padStart2 (toString16 b)) hashArray)))"

definition getUserStorageKey :: "jsstring \<Rightarrow> jsstring" where
  "getUserStorageKey userHash = js ''passwordManager_'' @ userHash"

definition getAllUsers :: "world \<Rightarrow> UserInfo list" where
  "getAllUsers w = (case localUsers w of None \<Rightarrow> [] | Some users \<Rightarrow> users)"

text \<open>Decimal digits of a number, as in a template literal.\<close>

function decimal :: "nat \<Rightarrow> jsstring" where
  "decimal n = (if n < 10 then [unit_of_nat (0x30 + n)]
                else decimal (n div 10) @ [unit_of_nat (0x30 + n mod 10)])"
  by pat_completeness auto
termination
  by (relation "measure id") auto

text \<open>\<open>Array.prototype.findIndex\<close>: the first index whose element satisfies the
  predicate, \<open>None\<close> for -1.\<close>

fun findIndex :: "('a \<Rightarrow> bool) \<Rightarrow> 'a list \<Rightarrow> nat option" where
  "findIndex f [] = None"
| "findIndex f (x # xs) =
     (if f x then Some 0 else (case findIndex f xs of None \<Rightarrow> None | Some i \<Rightarrow> Some (Suc i)))"

text \<open>\<open>addUserToList\<close> returns the exception of its \<open>setItem\<close>, if any, and the world
  it leaves.\<close>

definition addUserToList ::
  "jsstring \<Rightarrow> jsstring \<Rightarrow> world \<Rightarrow> js_error option \<times> world" where
  "addUserToList userHash masterPassword w =
     (let users = getAllUsers w;
          (created, w) = toISOString_now w;
          (login, w) = toISOString_now w;
          userInfo = \<lparr> user_hash = userHash, user_createdAt = created, lastLogin = login,
                       hint = take 3 masterPassword @ js ''... ('' @ decimal (length masterPassword)
                              @ js '' chars)'' \<rparr>
      in (case findIndex (\<lambda>u. user_hash u = userHash) users of
            Some existingIndex \<Rightarrow>
              (let (login', w) = toISOString_now w;
                   users = users[existingIndex := (users ! existingIndex)\<lparr> lastLogin := login' \<rparr>]
               in localStorage_setUsers users w)
          | None \<Rightarrow> localStorage_setUsers (users @ [userInfo]) w))"

subsection \<open>signup\<close>

text \<open>
  \<open>JSON.stringify(initialData)\<close>: the empty vault with the default categories and
  settings, the creation time and the version.
\<close>

definition initialData_json :: "jsstring \<Rightarrow> jsstring" where
  \<open>initialData_json created =
     js ''{"passwords":[],"categories":[''
     @ js ''{"id":"1","name":"Personal","color":"#3B82F6","icon":"User"},''
     @ js ''{"id":"2","name":"Work","color":"#EF4444","icon":"Briefcase"},''
     @ js ''{"id":"3","name":"Social","color":"#10B981","icon":"Users"},''
     @ js ''{"id":"4","name":"Finance","color":"#F59E0B","icon":"CreditCard"},''
     @ js ''{"id":"5","name":"Shopping","color":"#8B5CF6","icon":"ShoppingBag"}],''
     @ js ''"settings":{"autoLockMinutes":15,"theme":"light","showPasswordStrength":true,''
     @ js ''"compactView":false,"enableBiometric":false,"autoFillEnabled":true,''
     @ js ''"passwordExpiryDays":90,"enableBreachCheck":true,"enableTwoFactor":false,''
     @ js ''"backupFrequency":"weekly","language":"en"},"createdAt":"''
     @ created
     @ js ''","version":"2.0"}''\<close>

text \<open>
  \<open>signup\<close> returns what the promise resolves to and the world it leaves. A throw inside
  the \<open>try\<close> block ends it with \<open>false\<close>, keeping what was written before the throw:
  \<open>catching\<close> runs a step that may throw and, when it did not, the rest of the block.
\<close>

definition catching ::
  "js_error option \<times> world \<Rightarrow> (world \<Rightarrow> bool \<times> world) \<Rightarrow> bool \<times> world" where
  "catching step rest = (case fst step of Some e \<Rightarrow> (False, snd step) | None \<Rightarrow> rest (snd step))"

definition signup :: "'key webcrypto \<Rightarrow> jsstring \<Rightarrow> world \<Rightarrow> bool \<times> world" where
  "signup api masterPassword w =
     (case getUserHash api masterPassword of
        Inl e \<Rightarrow> (False, w)
      | Inr userHash \<Rightarrow>
          (let userStorageKey = getUserStorageKey userHash;
               existingData = localStorage_getItem w userStorageKey
           in if truthy existingData
              then (False, w)
              else
                (let (created, w1) = toISOString_now w;
                     dataString = initialData_json created;
                     (encrypted, r) = encrypt api (random w1) dataString masterPassword;
                     w2 = w1\<lparr> random := r \<rparr>
                 in (case encrypted of
                       Inl e \<Rightarrow> (False, w2)
                     | Inr blob \<Rightarrow>
                         catching (localStorage_setItem userStorageKey blob w2) (\<lambda>w3.
                         catching (addUserToList userHash masterPassword w3) (\<lambda>w4.
                         catching (sessionStorage_setItem ''masterPassword'' masterPassword w4) (\<lambda>w5.
                         catching (sessionStorage_setItem ''currentUserHash'' userHash w5) (\<lambda>w6.
                           (True, dispatch LOGIN (dispatch (SET_PASSWORDS []) w6))))))))))"

subsection \<open>Worlds to run signup in\<close>

text \<open>
  A world with empty storage that accepts every write, the random source of the
  executable platform and a clock that reads the first instant of 2024; the same world
  with a vault blob stored under the storage key of the identity hash \<open>7077\<close>, which is
  the hash of the passphrase \<open>pw\<close> on the executable platform; the same world with
  storage that is full, so that every write throws; and the blob that \<open>signup\<close> stores
  in the first.
\<close>

definition demo_world :: world where
  "demo_world =
     \<lparr> localVaults = Map.empty, localUsers = None, sessionItems = Map.empty,
       app = initialState, random = demo_rng,
       clock = (\<lambda>i. js ''2024-01-01T00:00:00.000Z''),
       write_faults = (\<lambda>i. False) \<rparr>"

definition demo_world_full :: world where
  "demo_world_full = demo_world\<lparr> write_faults := (\<lambda>i. True) \<rparr>"

definition demo_world_registered :: world where
  "demo_world_registered =
     demo_world\<lparr> localVaults := [getUserStorageKey (js ''7077'') \<mapsto> sample_blob] \<rparr>"

definition demo_signup_blob :: jsstring where
  "demo_signup_blob =
     base64_encode (drawn_salt demo_rng @ drawn_iv demo_rng
                    @ ciphertext_of demo_crypto demo_rng
                        (initialData_json (js ''2024-01-01T00:00:00.000Z'')) (js ''pw''))"

section \<open>Auxiliary definitions for the statements\<close>

text \<open>The aggregate score in the words of the specification, from the five counts.\<close>

definition spec_score :: "nat \<Rightarrow> nat \<Rightarrow> nat \<Rightarrow> nat \<Rightarrow> nat \<Rightarrow> real" where
  "spec_score weak reused expired compromised n =
     (if n = 0 then 100
      else max 0 (min 100 (100 - 30 * (real weak / real n) - 25 * (real reused / real n)
                               - 20 * (real expired / real n)
                               - 25 * (real compromised / real n))))"

text \<open>The group of a secret: the entries that carry it, in list order; and the secrets
  in the order of their first occurrence.\<close>

definition group_of :: "PasswordEntry list \<Rightarrow> jsstring \<Rightarrow> PasswordEntry list" where
  "group_of ps k = filter (\<lambda>e. password e = k) ps"

definition first_keys :: "PasswordEntry list \<Rightarrow> jsstring list" where
  "first_keys ps = rev (remdups (rev (map password ps)))"

text \<open>The arithmetic of the score on the five counts, as the source performs it: each
  quotient, product and difference is a double.\<close>

definition js_score :: "nat \<Rightarrow> nat \<Rightarrow> nat \<Rightarrow> nat \<Rightarrow> nat \<Rightarrow> real" where
  "js_score weak reused expired compromised n =
     max 0 (fsub (fsub (fsub (fsub 100 (fmul (fdiv (real weak) (real n)) 30))
                              (fmul (fdiv (real reused) (real n)) 25))
                        (fmul (fdiv (real expired) (real n)) 20))
                  (fmul (fdiv (real compromised) (real n)) 25))"

text \<open>An entry with the given identifier and secret: created at the first instant of
  2024, never used, no expiry date, flagged as compromised.\<close>

definition sample_entry :: "jsstring \<Rightarrow> jsstring \<Rightarrow> PasswordEntry" where
  "sample_entry i secret =
     \<lparr> entry_id = i, title = js ''Gmail'', username = js ''a@b.com'', password = secret,
       url = None, entry_notes = None, category = js ''1'',
       createdAt = Date 1704067200000, updatedAt = Date 1704067200000,
       isFavorite = None, tags = None, lastUsed = None, expiryDate = None,
       isCompromised = Some True, strength = None, twoFactorSecret = None,
       customFields = None \<rparr>"

text \<open>Three entries with secrets that score 85: the first two share their secret and
  are not flagged, the third is flagged as compromised.\<close>

definition three_entries :: "PasswordEntry list" where
  "three_entries =
     [(sample_entry (js ''1'') (js ''Abcdefgh1234''))\<lparr> isCompromised := None \<rparr>,
      (sample_entry (js ''2'') (js ''Abcdefgh1234''))\<lparr> isCompromised := None \<rparr>,
      sample_entry (js ''3'') (js ''Zyxwvuts9876'')]"

section \<open>UTF-8: decoding what was encoded\<close>

text \<open>
  The decoder, started in its initial state on the UTF-8 bytes of a scalar value followed
  by more input, emits that scalar value and is back in its initial state. The code point
  is split into its base-64 digits first, so that what remains is linear arithmetic.
\<close>

lemma unat_byte_of_nat: "n < 256 \<Longrightarrow> unat (byte_of_nat n) = n"
  by (simp add: byte_of_nat_def unat_of_nat)

lemma mod_offset: "a < n \<Longrightarrow> (k * n + a) mod n = (a::nat)"
  by simp

lemma digits64:
  fixes cp :: nat
  shows "cp = (cp div 64) * 64 + cp mod 64" and "cp mod 64 < 64"
  by simp_all

lemma digits4096:
  fixes cp :: nat
  shows "cp = (cp div 4096) * 4096 + ((cp div 64) mod 64) * 64 + cp mod 64"
proof -
  have "cp div 4096 = cp div 64 div 64"
    by (simp add: div_mult2_eq [symmetric])
  moreover have "cp div 64 = (cp div 64 div 64) * 64 + (cp div 64) mod 64"
    by simp
  moreover have "cp = (cp div 64) * 64 + cp mod 64"
    by simp
  ultimately show ?thesis by linarith
qed

lemma digits262144:
  fixes cp :: nat
  shows "cp = (cp div 262144) * 262144 + ((cp div 4096) mod 64) * 4096
              + ((cp div 64) mod 64) * 64 + cp mod 64"
proof -
  have "cp div 262144 = cp div 4096 div 64"
    by (simp add: div_mult2_eq [symmetric])
  moreover have "cp div 4096 = (cp div 4096 div 64) * 64 + (cp div 4096) mod 64"
    by simp
  moreover note digits4096 [of cp]
  ultimately show ?thesis by linarith
qed

lemma dec_ascii:
  "unat b = a \<Longrightarrow> a < 0x80 \<Longrightarrow>
   utf8_decoder cp 0 lo hi (b # bs) = a # utf8_decoder 0 0 0x80 0xBF bs"
  by (simp add: Let_def)

lemma dec_lead2:
  assumes "unat b = 0xC0 + a" "2 \<le> a" "a < 32"
  shows "utf8_decoder cp 0 lo hi (b # bs) = utf8_decoder a 1 0x80 0xBF bs"
proof -
  have "(0xC0 + a) mod 32 = a"
    using mod_offset [of a 32 6] assms by simp
  then show ?thesis using assms by (simp add: Let_def)
qed

lemma dec_lead3:
  assumes "unat b = 0xE0 + a" "a < 16"
  shows "utf8_decoder cp 0 lo hi (b # bs) =
     utf8_decoder a 2 (if a = 0 then 0xA0 else 0x80) (if a = 13 then 0x9F else 0xBF) bs"
proof -
  have "(0xE0 + a) mod 16 = a"
    using mod_offset [of a 16 14] assms by simp
  then show ?thesis using assms by (simp add: Let_def)
qed

lemma dec_lead4:
  assumes "unat b = 0xF0 + a" "a < 5"
  shows "utf8_decoder cp 0 lo hi (b # bs) =
     utf8_decoder a 3 (if a = 0 then 0x90 else 0x80) (if a = 4 then 0x8F else 0xBF) bs"
proof -
  have "(0xF0 + a) mod 8 = a"
    using mod_offset [of a 8 30] assms by simp
  then show ?thesis using assms by (simp add: Let_def)
qed

lemma dec_cont:
  assumes "unat b = 0x80 + c" "c < 64" "lo \<le> 0x80 + c" "0x80 + c \<le> hi" "0 < need"
  shows "utf8_decoder cp need lo hi (b # bs) =
     (if need = 1 then (cp * 64 + c) # utf8_decoder 0 0 0x80 0xBF bs
      else utf8_decoder (cp * 64 + c) (need - 1) 0x80 0xBF bs)"
proof -
  have "(0x80 + c) mod 64 = c"
    using mod_offset [of c 64 2] assms by simp
  then show ?thesis using assms by (simp add: Let_def)
qed

lemma dec1:
  assumes "cp < 0x80"
  shows "utf8_decoder 0 0 0x80 0xBF (utf8_bytes cp @ bs) = cp # utf8_decoder 0 0 0x80 0xBF bs"
  using assms by (simp add: utf8_bytes_def unat_byte_of_nat dec_ascii del: utf8_decoder.simps)

lemma dec2:
  assumes "0x80 \<le> cp" "cp < 0x800"
  shows "utf8_decoder 0 0 0x80 0xBF (utf8_bytes cp @ bs) = cp # utf8_decoder 0 0 0x80 0xBF bs"
proof -
  define a c where "a = cp div 64" and "c = cp mod 64"
  have cp: "cp = a * 64 + c" and c: "c < 64"
    by (simp_all add: a_def c_def)
  have a: "2 \<le> a" "a < 32"
    using assms cp c by linarith+
  have ua: "unat (byte_of_nat (0xC0 + a)) = 0xC0 + a"
    and uc: "unat (byte_of_nat (0x80 + c)) = 0x80 + c"
    using a c by (simp_all add: unat_byte_of_nat)
  have "utf8_decoder 0 0 0x80 0xBF (byte_of_nat (0xC0 + a) # byte_of_nat (0x80 + c) # bs)
      = utf8_decoder a 1 0x80 0xBF (byte_of_nat (0x80 + c) # bs)"
    by (rule dec_lead2 [OF ua a])
  also have "\<dots> = (a * 64 + c) # utf8_decoder 0 0 0x80 0xBF bs"
    using c by (simp add: dec_cont [OF uc] del: utf8_decoder.simps)
  finally show ?thesis
    using assms by (simp add: utf8_bytes_def cp [symmetric] a_def [symmetric] c_def [symmetric])
qed

lemma dec3:
  assumes "0x800 \<le> cp" "cp < 0x10000" "\<not> (0xD800 \<le> cp \<and> cp \<le> 0xDFFF)"
  shows "utf8_decoder 0 0 0x80 0xBF (utf8_bytes cp @ bs) = cp # utf8_decoder 0 0 0x80 0xBF bs"
proof -
  define a b c where "a = cp div 4096" and "b = (cp div 64) mod 64" and "c = cp mod 64"
  have cp: "cp = a * 4096 + b * 64 + c"
    unfolding a_def b_def c_def by (rule digits4096)
  have b: "b < 64" and c: "c < 64"
    by (simp_all add: b_def c_def)
  have a: "a < 16"
    using assms cp by linarith
  have lo: "(if a = 0 then 0xA0 else 0x80) \<le> 0x80 + b"
    using assms cp c by (cases "a = 0") simp_all
  have hi: "0x80 + b \<le> (if a = 13 then 0x9F else 0xBF)"
    using assms cp b c by (cases "a = 13") simp_all
  have ua: "unat (byte_of_nat (0xE0 + a)) = 0xE0 + a"
    and ub: "unat (byte_of_nat (0x80 + b)) = 0x80 + b"
    and uc: "unat (byte_of_nat (0x80 + c)) = 0x80 + c"
    using a b c by (simp_all add: unat_byte_of_nat)
  have "utf8_decoder 0 0 0x80 0xBF
          (byte_of_nat (0xE0 + a) # byte_of_nat (0x80 + b) # byte_of_nat (0x80 + c) # bs)
      = utf8_decoder a 2 (if a = 0 then 0xA0 else 0x80) (if a = 13 then 0x9F else 0xBF)
          (byte_of_nat (0x80 + b) # byte_of_nat (0x80 + c) # bs)"
    by (rule dec_lead3 [OF ua a])
  also have "\<dots> = utf8_decoder (a * 64 + b) 1 0x80 0xBF (byte_of_nat (0x80 + c) # bs)"
    by (simp add: dec_cont [OF ub b lo hi] del: utf8_decoder.simps)
  also have "\<dots> = ((a * 64 + b) * 64 + c) # utf8_decoder 0 0 0x80 0xBF bs"
    using c by (simp add: dec_cont [OF uc] del: utf8_decoder.simps)
  also have "(a * 64 + b) * 64 + c = cp"
    using cp by simp
  finally show ?thesis
    using assms
    by (simp add: utf8_bytes_def a_def [symmetric] b_def [symmetric] c_def [symmetric])
qed

lemma dec4:
  assumes "0x10000 \<le> cp" "cp < 0x110000"
  shows "utf8_decoder 0 0 0x80 0xBF (utf8_bytes cp @ bs) = cp # utf8_decoder 0 0 0x80 0xBF bs"
proof -
  define a b c d where "a = cp div 262144" and "b = (cp div 4096) mod 64"
    and "c = (cp div 64) mod 64" and "d = cp mod 64"
  have cp: "cp = a * 262144 + b * 4096 + c * 64 + d"
    unfolding a_def b_def c_def d_def by (rule digits262144)
  have b: "b < 64" and c: "c < 64" and d: "d < 64"
    by (simp_all add: b_def c_def d_def)
  have a: "a < 5"
    using assms cp by linarith
  have lo: "(if a = 0 then 0x90 else 0x80) \<le> 0x80 + b"
    using assms cp c d by (cases "a = 0") simp_all
  have hi: "0x80 + b \<le> (if a = 4 then 0x8F else 0xBF)"
    using assms cp b c d by (cases "a = 4") simp_all
  have ua: "unat (byte_of_nat (0xF0 + a)) = 0xF0 + a"
    and ub: "unat (byte_of_nat (0x80 + b)) = 0x80 + b"
    and uc: "unat (byte_of_nat (0x80 + c)) = 0x80 + c"
    and ud: "unat (byte_of_nat (0x80 + d)) = 0x80 + d"
    using a b c d by (simp_all add: unat_byte_of_nat)
  have "utf8_decoder 0 0 0x80 0xBF
          (byte_of_nat (0xF0 + a) # byte_of_nat (0x80 + b) # byte_of_nat (0x80 + c)
             # byte_of_nat (0x80 + d) # bs)
      = utf8_decoder a 3 (if a = 0 then 0x90 else 0x80) (if a = 4 then 0x8F else 0xBF)
          (byte_of_nat (0x80 + b) # byte_of_nat (0x80 + c) # byte_of_nat (0x80 + d) # bs)"
    by (rule dec_lead4 [OF ua a])
  also have "\<dots> = utf8_decoder (a * 64 + b) 2 0x80 0xBF
                      (byte_of_nat (0x80 + c) # byte_of_nat (0x80 + d) # bs)"
    by (simp add: dec_cont [OF ub b lo hi] del: utf8_decoder.simps)
  also have "\<dots> = utf8_decoder ((a * 64 + b) * 64 + c) 1 0x80 0xBF
                      (byte_of_nat (0x80 + d) # bs)"
    using c by (simp add: dec_cont [OF uc] del: utf8_decoder.simps)
  also have "\<dots> = (((a * 64 + b) * 64 + c) * 64 + d) # utf8_decoder 0 0 0x80 0xBF bs"
    using d by (simp add: dec_cont [OF ud] del: utf8_decoder.simps)
  also have "((a * 64 + b) * 64 + c) * 64 + d = cp"
    using cp by simp
  finally show ?thesis
    using assms
    by (simp add: utf8_bytes_def a_def [symmetric] b_def [symmetric] c_def [symmetric]
        d_def [symmetric])
qed

lemma utf8_decoder_bytes:
  "is_scalar cp \<Longrightarrow>
   utf8_decoder 0 0 0x80 0xBF (utf8_bytes cp @ bs) = cp # utf8_decoder 0 0 0x80 0xBF bs"
  using dec1 [of cp bs] dec2 [of cp bs] dec3 [of cp bs] dec4 [of cp bs]
  unfolding is_scalar_def by linarith

section \<open>TextDecoder after TextEncoder\<close>

lemma unat_unit_of_nat: "n < 65536 \<Longrightarrow> unat (unit_of_nat n) = n"
  by (simp add: unit_of_nat_def unat_of_nat)

lemma unit_of_nat_unat: "unit_of_nat (unat c) = c"
  by (simp add: unit_of_nat_def)

lemma unat_unit_bound: "unat (c :: code_unit) < 65536"
proof -
  have "unat c < 2 ^ LENGTH(16)" by (rule unsigned_less)
  then show ?thesis by simp
qed

lemma high_surrogate_unat: "is_high_surrogate c = (0xD800 \<le> unat c \<and> unat c \<le> 0xDBFF)"
  by (simp add: is_high_surrogate_def word_le_nat_alt)

lemma low_surrogate_unat: "is_low_surrogate c = (0xDC00 \<le> unat c \<and> unat c \<le> 0xDFFF)"
  by (simp add: is_low_surrogate_def word_le_nat_alt)

lemma pair_value_digits:
  assumes "is_high_surrogate c" "is_low_surrogate d"
  obtains h l where "unat c = 0xD800 + h" "h < 0x400" "unat d = 0xDC00 + l" "l < 0x400"
    "pair_value c d = 0x10000 + h * 0x400 + l"
proof -
  define h l where "h = unat c - 0xD800" and "l = unat d - 0xDC00"
  have "unat c = 0xD800 + h" "h < 0x400" "unat d = 0xDC00 + l" "l < 0x400"
    using assms unfolding h_def l_def high_surrogate_unat low_surrogate_unat
    by linarith+
  moreover have "pair_value c d = 0x10000 + h * 0x400 + l"
    by (simp add: pair_value_def h_def l_def)
  ultimately show thesis by (rule that)
qed

lemma pair_value_scalar:
  assumes "is_high_surrogate c" "is_low_surrogate d"
  shows "is_scalar (pair_value c d)"
proof -
  obtain h l where "h < 0x400" "l < 0x400" "pair_value c d = 0x10000 + h * 0x400 + l"
    using pair_value_digits [OF assms] by blast
  then show ?thesis by (simp add: is_scalar_def)
qed

lemma unat_scalar:
  "\<not> is_high_surrogate c \<Longrightarrow> \<not> is_low_surrogate c \<Longrightarrow> is_scalar (unat c)"
  using unat_unit_bound [of c]
  by (simp add: is_scalar_def high_surrogate_unat low_surrogate_unat) linarith

lemma replacement_scalar: "is_scalar 0xFFFD"
  by (simp add: is_scalar_def)

lemma scalar_values_step:
  "scalar_values (c # d # cs) =
     (if is_high_surrogate c \<and> is_low_surrogate d then pair_value c d # scalar_values cs
      else (if is_high_surrogate c \<or> is_low_surrogate c then 0xFFFD else unat c)
           # scalar_values (d # cs))"
  by simp

lemma scalar_values_single:
  "scalar_values [c] = [if is_high_surrogate c \<or> is_low_surrogate c then 0xFFFD else unat c]"
  by simp

lemma scalar_values_scalar: "\<forall>cp \<in> set (scalar_values s). is_scalar cp"
proof (induction s rule: scalar_values.induct)
  case 1
  show ?case by simp
next
  case (2 c)
  show ?case
    unfolding scalar_values_single
    by (simp add: replacement_scalar unat_scalar)
next
  case (3 c d cs)
  show ?case
  proof (cases "is_high_surrogate c \<and> is_low_surrogate d")
    case True
    then show ?thesis
      unfolding scalar_values_step using 3(1) by (simp add: pair_value_scalar)
  next
    case False
    have tl: "\<forall>cp \<in> set (scalar_values (d # cs)). is_scalar cp"
    proof (cases "is_high_surrogate c")
      case True
      with False show ?thesis using 3(2) by simp
    next
      case h: False
      show ?thesis
      proof (cases "is_low_surrogate c")
        case True
        with h show ?thesis using 3(3) by simp
      next
        case False
        with h show ?thesis using 3(4) by simp
      qed
    qed
    have hd: "is_scalar (if is_high_surrogate c \<or> is_low_surrogate c then 0xFFFD else unat c)"
      by (simp add: replacement_scalar unat_scalar)
    have eq: "scalar_values (c # d # cs) =
        (if is_high_surrogate c \<or> is_low_surrogate c then 0xFFFD else unat c)
        # scalar_values (d # cs)"
      using False by (simp only: scalar_values_step if_False)
    show ?thesis
      unfolding eq using tl hd by simp
  qed
qed

lemma utf8_decode_concat:
  "\<forall>cp \<in> set cps. is_scalar cp \<Longrightarrow>
   utf8_decoder 0 0 0x80 0xBF (concat (map utf8_bytes cps)) = cps"
proof (induction cps)
  case Nil
  show ?case by simp
next
  case (Cons cp cps)
  then show ?case by (simp add: utf8_decoder_bytes del: utf8_decoder.simps)
qed

lemma utf8_decode_encode: "utf8_decode (TextEncoder_encode s) = scalar_values s"
  by (simp add: utf8_decode_def TextEncoder_encode_def utf8_decode_concat scalar_values_scalar)

lemma utf16_units_pair:
  assumes "is_high_surrogate c" "is_low_surrogate d"
  shows "utf16_units (pair_value c d) = [c, d]"
proof -
  obtain h l where h: "unat c = 0xD800 + h" "h < 0x400" and l: "unat d = 0xDC00 + l" "l < 0x400"
    and v: "pair_value c d = 0x10000 + h * 0x400 + l"
    using pair_value_digits [OF assms] by blast
  have "(h * 0x400 + l) div 0x400 = h" "(h * 0x400 + l) mod 0x400 = l"
    using l by simp_all
  then have "utf16_units (0x10000 + (h * 0x400 + l))
      = [unit_of_nat (0xD800 + h), unit_of_nat (0xDC00 + l)]"
    by (simp add: utf16_units_def)
  also have "\<dots> = [c, d]"
    using h l unit_of_nat_unat [of c] unit_of_nat_unat [of d] by simp
  finally show ?thesis by (simp add: v add.assoc)
qed

lemma utf16_units_unat: "utf16_units (unat (c :: code_unit)) = [c]"
  using unat_unit_bound [of c] by (simp add: utf16_units_def unit_of_nat_unat)

lemma isWellFormed_step:
  "isWellFormed (c # d # cs) =
     (if is_high_surrogate c then is_low_surrogate d \<and> isWellFormed cs
      else \<not> is_low_surrogate c \<and> isWellFormed (d # cs))"
  by simp

lemma utf16_scalar_values:
  "isWellFormed s \<Longrightarrow> concat (map utf16_units (scalar_values s)) = s"
proof (induction s rule: scalar_values.induct)
  case 1
  show ?case by simp
next
  case (2 c)
  then show ?case by (simp add: utf16_units_unat)
next
  case (3 c d cs)
  show ?case
  proof (cases "is_high_surrogate c")
    case True
    with 3(5) have d: "is_low_surrogate d" and wf: "isWellFormed cs"
      unfolding isWellFormed_step by simp_all
    have "concat (map utf16_units (scalar_values cs)) = cs"
      using 3(1) True d wf by simp
    then show ?thesis
      unfolding scalar_values_step using True d by (simp add: utf16_units_pair)
  next
    case False
    with 3(5) have c: "\<not> is_low_surrogate c" and wf: "isWellFormed (d # cs)"
      unfolding isWellFormed_step by simp_all
    have "concat (map utf16_units (scalar_values (d # cs))) = d # cs"
      using 3(4) False c wf by simp
    then show ?thesis
      unfolding scalar_values_step using False c
      by (simp add: utf16_units_unat del: scalar_values.simps)
  qed
qed

lemma decode_encode_general:
  "TextDecoder_decode (TextEncoder_encode s)
     = concat (map utf16_units (strip_bom (scalar_values s)))"
  by (simp add: TextDecoder_decode_def utf8_decode_encode)

lemma strip_bom_scalar_values:
  assumes "s = [] \<or> hd s \<noteq> 0xFEFF"
  shows "strip_bom (scalar_values s) = scalar_values s"
proof (cases s rule: scalar_values.cases)
  case 1
  then show ?thesis by (simp add: strip_bom_def)
next
  case (2 c)
  then have "unat c \<noteq> 0xFEFF"
    using assms by (auto simp: word_unat_eq_iff)
  then show ?thesis using 2 by (simp add: strip_bom_def)
next
  case (3 c d cs)
  then have "unat c \<noteq> 0xFEFF"
    using assms by (auto simp: word_unat_eq_iff)
  moreover have "pair_value c d \<noteq> 0xFEFF"
    by (simp add: pair_value_def)
  ultimately show ?thesis using 3 by (simp add: strip_bom_def)
qed

lemma decode_encode_wellformed:
  "isWellFormed s \<Longrightarrow> s = [] \<or> hd s \<noteq> 0xFEFF \<Longrightarrow>
   TextDecoder_decode (TextEncoder_encode s) = s"
  by (simp add: decode_encode_general strip_bom_scalar_values utf16_scalar_values)

section \<open>atob after btoa\<close>

lemma unat_byte_bound: "unat (b :: byte) < 256"
proof -
  have "unat b < 2 ^ LENGTH(8)" by (rule unsigned_less)
  then show ?thesis by simp
qed

lemma byte_of_nat_unat: "byte_of_nat (unat b) = b"
  by (simp add: byte_of_nat_def)

lemma base64_index_char: "i < 64 \<Longrightarrow> base64_index (base64_char i) = Some i"
proof -
  assume i: "i < 64"
  consider "i < 26" | "26 \<le> i" "i < 52" | "52 \<le> i" "i < 62" | "i = 62" | "i = 63"
    using i by linarith
  then show ?thesis
  proof cases
    case 1
    then have "unat (unit_of_nat (0x41 + i)) = 0x41 + i"
      by (simp add: unat_unit_of_nat)
    then show ?thesis using 1 by (simp add: base64_char_def base64_index_def)
  next
    case 2
    then have "unat (unit_of_nat (0x61 + (i - 26))) = 0x61 + (i - 26)"
      by (simp add: unat_unit_of_nat)
    then show ?thesis using 2 by (auto simp: base64_char_def base64_index_def Let_def)
  next
    case 3
    then have "unat (unit_of_nat (0x30 + (i - 52))) = 0x30 + (i - 52)"
      by (simp add: unat_unit_of_nat)
    then show ?thesis using 3 by (auto simp: base64_char_def base64_index_def Let_def)
  next
    case 4
    then show ?thesis by (simp add: base64_char_def base64_index_def)
  next
    case 5
    then show ?thesis by (simp add: base64_char_def base64_index_def)
  qed
qed

lemma base64_index_padding: "base64_index 0x3D = None"
  by (simp add: base64_index_def)

lemma base64_index_whitespace: "is_ascii_whitespace c \<Longrightarrow> base64_index c = None"
  by (auto simp: is_ascii_whitespace_def base64_index_def)

lemma base64_char_not_padding: "i < 64 \<Longrightarrow> base64_char i \<noteq> 0x3D"
  using base64_index_char [of i] base64_index_padding by auto

lemma base64_char_not_whitespace: "i < 64 \<Longrightarrow> \<not> is_ascii_whitespace (base64_char i)"
  using base64_index_char [of i] base64_index_whitespace [of "base64_char i"] by auto

lemma those_indices_chars:
  "\<forall>v \<in> set vs. v < 64 \<Longrightarrow> those_indices (map base64_char vs) = Some vs"
  by (induction vs) (simp_all add: base64_index_char)

lemma quarter: "(a::nat) < 256 \<Longrightarrow> a div 4 < 64"
  by (rule less_mult_imp_div_less) simp

lemma sixteenth: "(a::nat) < 256 \<Longrightarrow> a div 16 < 16"
  by (rule less_mult_imp_div_less) simp

lemma sixtyfourth: "(a::nat) < 256 \<Longrightarrow> a div 64 < 4"
  by (rule less_mult_imp_div_less) simp

lemma sextet_bounds:
  fixes a b c :: byte
  shows "unat a div 4 < 64" "(unat a mod 4) * 16 + unat b div 16 < 64"
    "(unat b mod 16) * 4 + unat c div 64 < 64" "unat c mod 64 < 64"
    "(unat a mod 4) * 16 < 64" "(unat b mod 16) * 4 < 64"
proof -
  have "unat a mod 4 < 4" "unat b mod 16 < 16" by simp_all
  moreover note quarter [OF unat_byte_bound [of a]] sixteenth [OF unat_byte_bound [of b]]
    sixtyfourth [OF unat_byte_bound [of c]]
  ultimately show "unat a div 4 < 64" "(unat a mod 4) * 16 + unat b div 16 < 64"
    "(unat b mod 16) * 4 + unat c div 64 < 64" "(unat a mod 4) * 16 < 64"
    "(unat b mod 16) * 4 < 64"
    by linarith+
  show "unat c mod 64 < 64" by simp
qed

lemma sextets_bound: "\<forall>v \<in> set (sextets bs). v < 64"
proof (induction bs rule: sextets.induct)
  case 1
  show ?case by simp
next
  case (2 a)
  show ?case by (simp add: sextet_bounds)
next
  case (3 a b)
  show ?case by (simp add: sextet_bounds)
next
  case (4 a b c rest)
  then show ?case by (simp add: sextet_bounds)
qed

lemma regroup3:
  fixes a1 a0 b1 b0 c1 c0 :: nat
  shows "(((a1 * 64 + (a0 * 16 + b1)) * 64 + (b0 * 4 + c1)) * 64 + c0
         = ((a1 * 4 + a0) * 256 + (b1 * 16 + b0)) * 256 + (c1 * 64 + c0))"
  by (simp add: algebra_simps)

lemma regroup2:
  fixes a1 a0 b1 b0 :: nat
  shows "((a1 * 64 + (a0 * 16 + b1)) * 64 + b0 * 4 = ((a1 * 4 + a0) * 256 + (b1 * 16 + b0)) * 4)"
  by (simp add: algebra_simps)

lemma regroup1:
  fixes a1 a0 :: nat
  shows "a1 * 64 + a0 * 16 = (a1 * 4 + a0) * 16"
  by (simp add: algebra_simps)

lemma div_mod_base256:
  fixes m c :: nat
  assumes "c < 256"
  shows "(m * 256 + c) div 256 = m" "(m * 256 + c) mod 256 = c"
  using assms by simp_all

lemma group3:
  fixes a b c :: nat
  assumes "b < 256" "c < 256"
  defines "n \<equiv> (((a div 4) * 64 + ((a mod 4) * 16 + b div 16)) * 64
                 + ((b mod 16) * 4 + c div 64)) * 64 + c mod 64"
  shows "n div 65536 = a \<and> (n div 256) mod 256 = b \<and> n mod 256 = c"
proof -
  define m where "m = a * 256 + b"
  have n: "n = m * 256 + c"
    unfolding n_def regroup3 m_def by simp
  have c: "n mod 256 = c" and d: "n div 256 = m"
    unfolding n by (rule div_mod_base256 [OF assms(2)])+
  have b: "m mod 256 = b" and a: "m div 256 = a"
    unfolding m_def by (rule div_mod_base256 [OF assms(1)])+
  have "n div 65536 = n div 256 div 256"
    by (simp add: div_mult2_eq [symmetric])
  then show ?thesis
    by (simp only: a b c d)
qed

lemma group2:
  fixes a b :: nat
  assumes "b < 256"
  defines "n \<equiv> (((a div 4) * 64 + ((a mod 4) * 16 + b div 16)) * 64 + (b mod 16) * 4) div 4"
  shows "n div 256 = a \<and> n mod 256 = b"
proof -
  have n: "n = a * 256 + b"
    unfolding n_def regroup2 by simp
  show ?thesis
    unfolding n by (simp only: div_mod_base256 [OF assms(1)])
qed

lemma group1:
  fixes a :: nat
  shows "((a div 4) * 64 + (a mod 4) * 16) div 16 = a"
  unfolding regroup1 by simp

lemma sextets_to_bytes_sextets: "sextets_to_bytes (sextets bs) = bs"
proof (induction bs rule: sextets.induct)
  case 1
  show ?case by simp
next
  case (2 a)
  show ?case by (simp add: group1 byte_of_nat_unat)
next
  case (3 a b)
  show ?case
    using group2 [where a = "unat a" and b = "unat b", OF unat_byte_bound]
    by (simp add: byte_of_nat_unat)
next
  case (4 a b c rest)
  show ?case
    using 4 group3 [where a = "unat a" and b = "unat b" and c = "unat c",
        OF unat_byte_bound unat_byte_bound]
    by (simp add: byte_of_nat_unat)
qed

lemma mod3_three_more: "Suc (Suc (Suc n)) mod 3 = n mod 3"
proof -
  have "Suc (Suc (Suc n)) = n + 3" by simp
  then show ?thesis by (simp only: mod_add_self2)
qed

lemma mod4_four_more: "Suc (Suc (Suc (Suc n))) mod 4 = n mod 4"
proof -
  have "Suc (Suc (Suc (Suc n))) = n + 4" by simp
  then show ?thesis by (simp only: mod_add_self2)
qed

lemma base64_padding_cases:
  "base64_padding (length ([] :: byte list)) = []"
  "base64_padding (length [a]) = [0x3D, 0x3D]"
  "base64_padding (length [a, b]) = [0x3D]"
  "base64_padding (length (a # b # c # rest)) = base64_padding (length rest)"
  by (simp_all add: base64_padding_def mod3_three_more numeral_2_eq_2)

lemma length_sextets_padding:
  "(length (sextets bs) + length (base64_padding (length bs))) mod 4 = 0"
proof (induction bs rule: sextets.induct)
  case 1
  show ?case unfolding base64_padding_cases by simp
next
  case (2 a)
  show ?case unfolding base64_padding_cases by simp
next
  case (3 a b)
  show ?case unfolding base64_padding_cases by simp
next
  case (4 a b c rest)
  then show ?case unfolding base64_padding_cases by (simp add: mod4_four_more)
qed

lemma length_sextets_mod: "length (sextets bs) mod 4 \<noteq> 1"
  by (induction bs rule: sextets.induct) (simp_all add: mod4_four_more)

lemma padding_shape:
  "base64_padding n = [] \<or> base64_padding n = [0x3D] \<or> base64_padding n = [0x3D, 0x3D]"
proof -
  have "(3 - n mod 3) mod 3 < 3" by simp
  then consider "(3 - n mod 3) mod 3 = 0" | "(3 - n mod 3) mod 3 = 1" | "(3 - n mod 3) mod 3 = 2"
    by linarith
  then show ?thesis
    by cases (simp_all add: base64_padding_def numeral_2_eq_2)
qed

lemma remove_one_padding_body:
  "\<forall>c \<in> set body. c \<noteq> 0x3D \<Longrightarrow> remove_one_padding body = body"
  by (cases body rule: rev_cases) (simp_all add: remove_one_padding_def)

lemma remove_one_padding_snoc: "remove_one_padding (d @ [0x3D]) = d"
  by (simp add: remove_one_padding_def)

lemma remove_padding_encoded:
  assumes body: "\<forall>c \<in> set body. c \<noteq> 0x3D"
    and pad: "pad = [] \<or> pad = [0x3D] \<or> pad = [0x3D, 0x3D]"
    and len: "(length body + length pad) mod 4 = 0"
  shows "remove_padding (body @ pad) = body"
proof -
  have "remove_one_padding (remove_one_padding (body @ pad)) = body"
    using pad
  proof (elim disjE)
    assume "pad = []"
    then show ?thesis by (simp add: remove_one_padding_body [OF body])
  next
    assume "pad = [0x3D]"
    then show ?thesis
      by (simp add: remove_one_padding_snoc remove_one_padding_body [OF body])
  next
    assume p: "pad = [0x3D, 0x3D]"
    have "remove_one_padding ((body @ [0x3D]) @ [0x3D]) = body @ [0x3D]"
      by (rule remove_one_padding_snoc)
    then show ?thesis
      using p by (simp add: remove_one_padding_snoc)
  qed
  then show ?thesis
    using len by (simp add: remove_padding_def)
qed

lemma atob_base64_encode: "atob (base64_encode bs) = Inr (map ucast bs)"
proof -
  let ?body = "map base64_char (sextets bs)" and ?pad = "base64_padding (length bs)"
  have body_np: "\<forall>c \<in> set ?body. c \<noteq> 0x3D"
    using sextets_bound [of bs] by (auto simp: base64_char_not_padding)
  have no_ws: "filter (\<lambda>c. \<not> is_ascii_whitespace c) (base64_encode bs) = base64_encode bs"
  proof -
    have "\<forall>c \<in> set ?body. \<not> is_ascii_whitespace c"
      using sextets_bound [of bs] by (auto simp: base64_char_not_whitespace)
    moreover have "\<forall>c \<in> set ?pad. \<not> is_ascii_whitespace c"
      by (simp add: base64_padding_def is_ascii_whitespace_def)
    ultimately show ?thesis
      by (simp add: base64_encode_def)
  qed
  have rp: "remove_padding (base64_encode bs) = ?body"
    unfolding base64_encode_def
    by (rule remove_padding_encoded [OF body_np padding_shape])
       (simp add: length_sextets_padding)
  have idx: "those_indices ?body = Some (sextets bs)"
    by (rule those_indices_chars [OF sextets_bound])
  show ?thesis
    by (simp add: atob_def no_ws rp idx sextets_to_bytes_sextets Let_def
        length_sextets_mod [unfolded One_nat_def])
qed

lemma unat_ucast_byte: "unat (ucast (b :: byte) :: code_unit) = unat b"
proof -
  have "unat b < 2 ^ 16"
    using unat_byte_bound [of b] by simp
  then have "take_bit 16 (unat b) = unat b"
    by (rule take_bit_nat_eq_self)
  then show ?thesis
    by (simp add: unsigned_ucast_eq)
qed

lemma ucast_byte_roundtrip: "ucast (ucast (b :: byte) :: code_unit) = b"
  by (rule ucast_up_ucast_id) (simp add: is_up)

lemma bytes_of_binary_string: "map ucast (map ucast (bs :: byte list) :: jsstring) = bs"
  by (induction bs) (simp_all add: ucast_byte_roundtrip)

lemma binary_string_units: "\<forall>c \<in> set (map ucast (bs :: byte list) :: jsstring). \<not> 0xFF < c"
proof
  fix c :: code_unit
  assume "c \<in> set (map ucast bs)"
  then obtain b :: byte where "c = ucast b" by auto
  then have "unat c < 256"
    using unat_byte_bound [of b] by (simp add: unat_ucast_byte)
  then show "\<not> 0xFF < c"
    by (simp add: word_less_nat_alt)
qed

lemma btoa_binary_string: "btoa (map ucast (bs :: byte list)) = Inr (base64_encode bs)"
proof -
  have "\<not> (\<exists>c \<in> set (map ucast bs :: jsstring). 0xFF < c)"
    using binary_string_units [of bs] by blast
  then show ?thesis
    unfolding btoa_def by (simp only: if_False bytes_of_binary_string)
qed

section \<open>encrypt and decrypt\<close>

lemma second_draw: "map (\<lambda>i. r (32 + i)) [0..<16] = map r [32..<48]"
proof -
  have "map (\<lambda>i. r (32 + i)) [0..<16] = map r (map (\<lambda>i. i + 32) [0..<16])"
    by (simp add: add.commute del: upt_rec_numeral)
  also have "map (\<lambda>i. i + 32) [0..<16] = [32..<16 + 32]"
    by (rule map_add_upt)
  finally show ?thesis by (simp del: upt_rec_numeral)
qed

lemma draw_salt: "getRandomValues SALT_LENGTH r = (drawn_salt r, \<lambda>i. r (32 + i))"
  by (simp only: getRandomValues_def drawn_salt_def SALT_LENGTH_def)

lemma draw_iv: "getRandomValues IV_LENGTH (\<lambda>i. r (32 + i)) = (drawn_iv r, \<lambda>i. r (48 + i))"
proof -
  have "(\<lambda>i. r (32 + (16 + i))) = (\<lambda>i. r (48 + i))"
    by (simp add: add.assoc [symmetric])
  then show ?thesis
    by (simp only: getRandomValues_def drawn_iv_def IV_LENGTH_def second_draw)
qed

lemma deriveKey_unfold:
  "deriveKey api password_text salt =
     subtle_deriveKey api
       \<lparr> kdf_name = ''PBKDF2'', kdf_salt = salt, kdf_iterations = 210000,
         kdf_hash = ''SHA-256'' \<rparr>
       (TextEncoder_encode password_text)
       \<lparr> key_name = ''AES-GCM'', key_length = 256 \<rparr>"
  by (simp add: deriveKey_def PBKDF2_ITERATIONS_def KEY_LENGTH_def)

lemma length_drawn: "length (drawn_salt r) = 32" "length (drawn_iv r) = 16"
  by (simp_all add: drawn_salt_def drawn_iv_def del: upt_rec_numeral)

lemma encrypt_unfold:
  "encrypt api r data password_text =
     (if max_arguments api < 48 + length (ciphertext_of api r data password_text)
      then Inl (Error ''Encryption failed'')
      else Inr (base64_encode (drawn_salt r @ drawn_iv r
                                @ ciphertext_of api r data password_text)),
      \<lambda>i. r (48 + i))"
proof -
  have ct: "subtle_encrypt api
              \<lparr> gcm_name = ''AES-GCM'', gcm_iv = drawn_iv r, gcm_tagLength = 128 \<rparr>
              (deriveKey api password_text (drawn_salt r)) (TextEncoder_encode data)
            = ciphertext_of api r data password_text"
    by (simp only: ciphertext_of_def deriveKey_unfold)
  have "encrypt api r data password_text =
     (case fromCharCode_spread (max_arguments api)
             (drawn_salt r @ drawn_iv r @ ciphertext_of api r data password_text) of
        Inl e \<Rightarrow> Inl (Error ''Encryption failed'')
      | Inr binary \<Rightarrow>
          (case btoa binary of
             Inl e \<Rightarrow> Inl (Error ''Encryption failed'')
           | Inr encoded \<Rightarrow> Inr encoded),
      \<lambda>i. r (48 + i))"
    by (simp only: encrypt_def Let_def draw_salt draw_iv prod.case ct)
  then show ?thesis
    by (simp add: fromCharCode_spread_def btoa_binary_string length_drawn
        del: map_append)
qed

lemma decrypt_encoded:
  assumes "length salt = 32" "length iv = 16"
  shows "decrypt api (base64_encode (salt @ iv @ ct)) password_text =
     (case subtle_decrypt api \<lparr> gcm_name = ''AES-GCM'', gcm_iv = iv, gcm_tagLength = 128 \<rparr>
             (deriveKey api password_text salt) ct of
        None \<Rightarrow> Inl (Error ''Invalid password or corrupted data'')
      | Some decryptedBuffer \<Rightarrow> Inr (TextDecoder_decode decryptedBuffer))"
proof -
  have "charCodes_to_bytes (map ucast (salt @ iv @ ct)) = salt @ iv @ ct"
    unfolding charCodes_to_bytes_def by (rule bytes_of_binary_string)
  then show ?thesis
    using assms
    by (simp add: decrypt_def atob_base64_encode SALT_LENGTH_def IV_LENGTH_def Let_def
        del: map_append map_map)
qed

lemma decrypt_encrypt_general:
  assumes "decrypt_inverts_encrypt api" "encrypt api r p k = (Inr blob, r')"
  shows "decrypt api blob k = Inr (TextDecoder_decode (TextEncoder_encode p))"
proof -
  have blob: "blob = base64_encode (drawn_salt r @ drawn_iv r @ ciphertext_of api r p k)"
    using assms(2) unfolding encrypt_unfold by (simp split: if_splits)
  have "subtle_decrypt api \<lparr> gcm_name = ''AES-GCM'', gcm_iv = drawn_iv r, gcm_tagLength = 128 \<rparr>
          (deriveKey api k (drawn_salt r)) (ciphertext_of api r p k)
        = Some (TextEncoder_encode p)"
    using assms(1)
    by (simp add: decrypt_inverts_encrypt_def ciphertext_of_def deriveKey_unfold)
  then show ?thesis
    unfolding blob
    by (simp add: decrypt_encoded length_drawn)
qed

lemma demo_inverts: "decrypt_inverts_encrypt demo_crypto"
  by (simp add: decrypt_inverts_encrypt_def demo_crypto_def demo_tag_def)


section \<open>Evaluation of the encodings on explicit lists\<close>

lemma js_abc: "js ''abc'' = [0x61, 0x62, 0x63]"
  by (simp add: js_def unit_of_nat_def)

lemma upt_0_32: "[0..<32] = [0, 1, 2, 3, 4, 5, 6, 7, 8, 9, 10, 11, 12, 13, 14, 15, 16, 17, 18, 19, 20,
    21, 22, 23, 24, 25, 26, 27, 28, 29, 30, 31 :: nat]"
  by (simp add: upt_rec)

lemma replicate16: "replicate 16 x = [x, x, x, x, x, x, x, x, x, x, x, x, x, x, x, x]"
  by (simp add: numeral_eq_Suc)

lemma base64_encode_step:
  "base64_encode (a # b # c # rest) =
     [base64_char (unat a div 4), base64_char ((unat a mod 4) * 16 + unat b div 16),
      base64_char ((unat b mod 16) * 4 + unat c div 64), base64_char (unat c mod 64)]
     @ base64_encode rest"
proof -
  have "base64_padding (length (a # b # c # rest)) = base64_padding (length rest)"
    by (rule base64_padding_cases(4))
  then show ?thesis
    by (simp add: base64_encode_def)
qed

lemma base64_encode_last:
  "base64_encode [] = []"
  "base64_encode [a] =
     [base64_char (unat a div 4), base64_char ((unat a mod 4) * 16), 0x3D, 0x3D]"
  "base64_encode [a, b] =
     [base64_char (unat a div 4), base64_char ((unat a mod 4) * 16 + unat b div 16),
      base64_char ((unat b mod 16) * 4), 0x3D]"
  using base64_padding_cases(1) base64_padding_cases(2) [of a] base64_padding_cases(3) [of a b]
  by (simp_all add: base64_encode_def)

section \<open>The executable platform, evaluated\<close>

lemma demo_salt: "drawn_salt demo_rng = [3, 10, 17, 24, 31, 38, 45, 52, 59, 66, 73, 80, 87, 94, 101, 108, 115, 122, 129, 136, 143, 150, 157, 164, 171, 178, 185, 192, 199, 206, 213, 220]"
  by (simp add: drawn_salt_def demo_rng_def byte_of_nat_def upt_0_32)

lemma demo_iv: "drawn_iv demo_rng = [227, 234, 241, 248, 255, 6, 13, 20, 27, 34, 41, 48, 55, 62, 69, 76]"
  by (simp add: drawn_iv_def demo_rng_def byte_of_nat_def)

lemma encode_bom: "TextEncoder_encode [0xFEFF] = [0xEF, 0xBB, 0xBF]"
  by (simp add: TextEncoder_encode_def utf8_bytes_def byte_of_nat_def is_high_surrogate_def
      is_low_surrogate_def)

lemma encode_lone_surrogate: "TextEncoder_encode [0xD800] = [0xEF, 0xBF, 0xBD]"
  by (simp add: TextEncoder_encode_def utf8_bytes_def byte_of_nat_def is_high_surrogate_def
      is_low_surrogate_def)

lemma encode_pw: "TextEncoder_encode (js ''pw'') = [0x70, 0x77]"
  by (simp add: TextEncoder_encode_def utf8_bytes_def byte_of_nat_def is_high_surrogate_def
      is_low_surrogate_def js_def unit_of_nat_def)

lemma encode_abc: "TextEncoder_encode (js ''abc'') = [0x61, 0x62, 0x63]"
  by (simp add: TextEncoder_encode_def utf8_bytes_def byte_of_nat_def is_high_surrogate_def
      is_low_surrogate_def js_def unit_of_nat_def)

lemma decode_bom: "TextDecoder_decode [0xEF, 0xBB, 0xBF] = []"
  by (simp add: TextDecoder_decode_def utf8_decode_def strip_bom_def Let_def)

lemma decode_replacement: "TextDecoder_decode [0xEF, 0xBF, 0xBD] = [0xFFFD]"
  by (simp add: TextDecoder_decode_def utf8_decode_def strip_bom_def Let_def utf16_units_def
      unit_of_nat_def)

lemma demo_ciphertext:
  "ciphertext_of demo_crypto demo_rng data (js ''pw'')
     = TextEncoder_encode data
       @ replicate 16 (byte_sum ([0x70, 0x77] @ drawn_salt demo_rng @ drawn_iv demo_rng
                                   @ TextEncoder_encode data))"
  by (simp add: ciphertext_of_def demo_crypto_def demo_tag_def encode_pw)

lemma demo_encrypt:
  assumes "length (TextEncoder_encode data) \<le> 60000"
  shows "fst (encrypt demo_crypto demo_rng data (js ''pw''))
     = Inr (base64_encode (drawn_salt demo_rng @ drawn_iv demo_rng
                            @ ciphertext_of demo_crypto demo_rng data (js ''pw'')))"
proof -
  have "max_arguments demo_crypto = 65535"
    by (simp add: demo_crypto_def)
  moreover have "length (ciphertext_of demo_crypto demo_rng data (js ''pw''))
      = length (TextEncoder_encode data) + 16"
    unfolding demo_ciphertext by simp
  ultimately show ?thesis
    unfolding encrypt_unfold using assms by simp
qed

lemma blob_bom:
  "base64_encode (drawn_salt demo_rng @ drawn_iv demo_rng
                  @ ciphertext_of demo_crypto demo_rng [0xFEFF] (js ''pw''))
   = js ''AwoRGB8mLTQ7QklQV15lbHN6gYiPlp2kq7K5wMfO1dzj6vH4/wYNFBsiKTA3PkVM77u/uLi4uLi4uLi4uLi4uLi4uA==''"
  unfolding demo_ciphertext encode_bom demo_salt demo_iv
  by (simp add: byte_sum_def replicate16 base64_encode_step base64_encode_last
      base64_char_def js_def unit_of_nat_def)

lemma blob_lone:
  "base64_encode (drawn_salt demo_rng @ drawn_iv demo_rng
                  @ ciphertext_of demo_crypto demo_rng [0xD800] (js ''pw''))
   = js ''AwoRGB8mLTQ7QklQV15lbHN6gYiPlp2kq7K5wMfO1dzj6vH4/wYNFBsiKTA3PkVM77+9urq6urq6urq6urq6urq6ug==''"
  unfolding demo_ciphertext encode_lone_surrogate demo_salt demo_iv
  by (simp add: byte_sum_def replicate16 base64_encode_step base64_encode_last
      base64_char_def js_def unit_of_nat_def)

lemma blob_abc:
  "base64_encode (drawn_salt demo_rng @ drawn_iv demo_rng
                  @ ciphertext_of demo_crypto demo_rng (js ''abc'') (js ''pw''))
   = js ''AwoRGB8mLTQ7QklQV15lbHN6gYiPlp2kq7K5wMfO1dzj6vH4/wYNFBsiKTA3PkVMYWJjdXV1dXV1dXV1dXV1dXV1dQ==''"
  unfolding demo_ciphertext encode_abc demo_salt demo_iv
  by (simp add: byte_sum_def replicate16 base64_encode_step base64_encode_last
      base64_char_def js_def unit_of_nat_def)

lemma demo_encrypt_abc:
  "encrypt demo_crypto demo_rng (js ''abc'') (js ''pw'')
     = (Inr (js ''AwoRGB8mLTQ7QklQV15lbHN6gYiPlp2kq7K5wMfO1dzj6vH4/wYNFBsiKTA3PkVMYWJjdXV1dXV1dXV1dXV1dXV1dQ==''),
        \<lambda>i. demo_rng (48 + i))"
  using demo_encrypt [of "js ''abc''"]
  by (simp add: prod_eq_iff encode_abc blob_abc encrypt_unfold)

lemma wellformed_abc: "isWellFormed (js ''abc'')"
  by (simp add: js_abc is_high_surrogate_def is_low_surrogate_def)

lemma js_x: "js ''x'' = [0x78]" and js_y: "js ''y'' = [0x79]"
  by (simp_all add: js_def unit_of_nat_def)

lemma sample_fields:
  "password (sample_entry i s) = s" "createdAt (sample_entry i s) = Date 1704067200000"
  "expiryDate (sample_entry i s) = None" "isCompromised (sample_entry i s) = Some True"
  by (simp_all add: sample_entry_def)

section \<open>decrypt on decoded bytes\<close>












section \<open>signup: the stored text and the user list\<close>

lemma isWellFormed_Cons: "non_surrogate c \<Longrightarrow> isWellFormed (c # s) = isWellFormed s"
  by (cases s) (simp_all add: non_surrogate_def)

lemma isWellFormed_prepend:
  "\<forall>c \<in> set a. non_surrogate c \<Longrightarrow> isWellFormed (a @ s) = isWellFormed s"
  by (induction a) (simp_all add: isWellFormed_Cons)

lemma isWellFormed_append:
  "isWellFormed s \<Longrightarrow> \<forall>c \<in> set b. non_surrogate c \<Longrightarrow> isWellFormed (s @ b)"
proof (induction s rule: isWellFormed.induct)
  case 1
  then show ?case using isWellFormed_prepend [of b "[]"] by simp
next
  case (2 c)
  then have "non_surrogate c" by (simp add: non_surrogate_def)
  then have "isWellFormed (c # b) = isWellFormed b" by (rule isWellFormed_Cons)
  moreover have "isWellFormed b" using 2(2) isWellFormed_prepend [of b "[]"] by simp
  ultimately show ?case by simp
next
  case (3 c d cs)
  show ?case
  proof (cases "is_high_surrogate c")
    case True
    with 3(3) have "is_low_surrogate d" "isWellFormed cs" by simp_all
    then show ?thesis using True 3(1) 3(4) by simp
  next
    case False
    with 3(3) have "\<not> is_low_surrogate c" "isWellFormed (d # cs)" by simp_all
    then show ?thesis using False 3(2) 3(4) by simp
  qed
qed

lemma js_non_surrogate: "\<forall>c \<in> set (js s). non_surrogate c"
proof
  fix c assume "c \<in> set (js s)"
  then obtain ch :: char where c: "c = unit_of_nat (of_char ch)"
    by (auto simp: js_def)
  have "(of_char ch :: nat) = of_char (char_of (of_char ch :: nat))"
    by simp
  also have "\<dots> = (of_char ch :: nat) mod 256"
    by (rule of_char_of)
  finally have "of_char ch < (256 :: nat)"
    by (metis mod_less_divisor zero_less_numeral)
  then have small: "of_char ch < (256 :: nat)" .
  then have "of_char ch < (65536 :: nat)"
    by linarith
  then have "unat (unit_of_nat (of_char ch)) = (of_char ch :: nat)"
    by (rule unat_unit_of_nat)
  then have "unat c < 256"
    using c small by simp
  then show "non_surrogate c"
    by (simp add: non_surrogate_def high_surrogate_unat low_surrogate_unat)
qed

lemma wellformed_initialData:
  "isWellFormed created \<Longrightarrow> isWellFormed (initialData_json created)"
  unfolding initialData_json_def
  by (simp only: isWellFormed_prepend [OF js_non_surrogate]
      isWellFormed_append [OF _ js_non_surrogate])

lemma hd_initialData: "hd (initialData_json created) = 0x7B"
  by (simp add: initialData_json_def js_def unit_of_nat_def)

lemma findIndex_Some: "findIndex f xs = Some i \<Longrightarrow> i < length xs \<and> f (xs ! i)"
proof (induction xs arbitrary: i)
  case Nil
  then show ?case by simp
next
  case (Cons x xs)
  then show ?case
    by (cases "f x") (auto split: option.splits)
qed

lemma write_faults_after_write [simp]:
  "write_faults (after_write w) = (\<lambda>i. write_faults w (Suc i))"
  "localVaults (after_write w) = localVaults w"
  "localUsers (after_write w) = localUsers w"
  "sessionItems (after_write w) = sessionItems w"
  "app (after_write w) = app w"
  by (simp_all add: after_write_def)

lemma addUserToList_ok:
  assumes "\<not> write_faults w 0"
  shows "fst (addUserToList h pw w) = None"
    and "localVaults (snd (addUserToList h pw w)) = localVaults w"
    and "sessionItems (snd (addUserToList h pw w)) = sessionItems w"
    and "app (snd (addUserToList h pw w)) = app w"
    and "write_faults (snd (addUserToList h pw w)) = (\<lambda>i. write_faults w (Suc i))"
  using assms
  by (simp_all add: addUserToList_def toISOString_now_def Let_def localStorage_setUsers_def
      split: option.splits)

lemma addUserToList_fails:
  assumes "write_faults w 0"
  shows "fst (addUserToList h pw w) = Some (Error ''QuotaExceededError'')"
    and "localVaults (snd (addUserToList h pw w)) = localVaults w"
    and "localUsers (snd (addUserToList h pw w)) = localUsers w"
  using assms
  by (simp_all add: addUserToList_def toISOString_now_def Let_def localStorage_setUsers_def
      after_write_def split: option.splits)

lemma addUserToList_registers:
  assumes "\<not> write_faults w 0"
  shows "\<exists>u \<in> set (getAllUsers (snd (addUserToList h pw w))). user_hash u = h"
proof (cases "findIndex (\<lambda>u. user_hash u = h) (getAllUsers w)")
  case None
  then show ?thesis
    using assms
    by (simp add: addUserToList_def toISOString_now_def Let_def getAllUsers_def
        localStorage_setUsers_def)
next
  case (Some i)
  then have i: "i < length (getAllUsers w)" "user_hash (getAllUsers w ! i) = h"
    using findIndex_Some [of "\<lambda>u. user_hash u = h" "getAllUsers w" i] by simp_all
  let ?t = "clock w (Suc (Suc 0))"
  let ?users = "(getAllUsers w)[i := (getAllUsers w ! i)\<lparr> lastLogin := ?t \<rparr>]"
  have users: "getAllUsers (snd (addUserToList h pw w)) = ?users"
    using Some assms
    by (simp add: addUserToList_def toISOString_now_def Let_def getAllUsers_def
        localStorage_setUsers_def)
  have "?users ! i \<in> set ?users"
    using i(1) by (simp add: set_update_memI)
  moreover have "user_hash (?users ! i) = h"
    using i by simp
  ultimately show ?thesis
    unfolding users by blast
qed

section \<open>signup, step by step\<close>

lemma signup_exists:
  assumes "getUserHash api pw = Inr h"
    and "localVaults w (getUserStorageKey h) = Some blob" and "blob \<noteq> []"
  shows "signup api pw w = (False, w)"
  using assms by (simp add: signup_def Let_def localStorage_getItem_def truthy_def)

lemma catching_None: "fst step = None \<Longrightarrow> catching step rest = rest (snd step)"
  by (simp add: catching_def)

lemma catching_Some: "fst step = Some e \<Longrightarrow> catching step rest = (False, snd step)"
  by (simp add: catching_def)

lemma signup_unfold:
  assumes "getUserHash api pw = Inr h"
    and "\<not> truthy (localVaults w (getUserStorageKey h))"
    and "encrypt api (random w) (initialData_json (clock w 0)) pw = (Inr blob, r)"
  shows "signup api pw w =
     catching (localStorage_setItem (getUserStorageKey h) blob
                 (w\<lparr> clock := (\<lambda>i. clock w (Suc i)), random := r \<rparr>)) (\<lambda>w3.
     catching (addUserToList h pw w3) (\<lambda>w4.
     catching (sessionStorage_setItem ''masterPassword'' pw w4) (\<lambda>w5.
     catching (sessionStorage_setItem ''currentUserHash'' h w5) (\<lambda>w6.
       (True, dispatch LOGIN (dispatch (SET_PASSWORDS []) w6))))))"
  using assms
  by (simp add: signup_def Let_def localStorage_getItem_def toISOString_now_def)

lemma signup_encrypt_fails:
  assumes "getUserHash api pw = Inr h"
    and "\<not> truthy (localVaults w (getUserStorageKey h))"
    and "encrypt api (random w) (initialData_json (clock w 0)) pw = (Inl e, r)"
  shows "signup api pw w = (False, w\<lparr> clock := (\<lambda>i. clock w (Suc i)), random := r \<rparr>)"
  using assms
  by (simp add: signup_def Let_def localStorage_getItem_def toISOString_now_def)

lemma signup_creates:
  assumes hash: "getUserHash api pw = Inr h"
    and none: "\<not> truthy (localVaults w (getUserStorageKey h))"
    and e: "encrypt api (random w) (initialData_json (clock w 0)) pw = (Inr blob, r)"
    and ok: "\<not> write_faults w 0" "\<not> write_faults w 1" "\<not> write_faults w 2"
      "\<not> write_faults w 3"
  shows "fst (signup api pw w) = True"
    and "localVaults (snd (signup api pw w)) = (localVaults w)(getUserStorageKey h \<mapsto> blob)"
    and "\<exists>u \<in> set (getAllUsers (snd (signup api pw w))). user_hash u = h"
    and "sessionItems (snd (signup api pw w)) ''currentUserHash'' = Some h"
    and "sessionItems (snd (signup api pw w)) ''masterPassword'' = Some pw"
    and "isAuthenticated (app (snd (signup api pw w)))"
    and "passwords (app (snd (signup api pw w))) = []"
proof -
  let ?w2 = "w\<lparr> clock := (\<lambda>i. clock w (Suc i)), random := r \<rparr>"
  define w3 where "w3 = after_write (?w2\<lparr> localVaults := (localVaults w)(getUserStorageKey h \<mapsto> blob) \<rparr>)"
  define w4 where "w4 = snd (addUserToList h pw w3)"
  define w5 where "w5 = after_write (w4\<lparr> sessionItems := (sessionItems w4)(''masterPassword'' \<mapsto> pw) \<rparr>)"
  define w6 where "w6 = after_write (w5\<lparr> sessionItems := (sessionItems w5)(''currentUserHash'' \<mapsto> h) \<rparr>)"
  have s1: "localStorage_setItem (getUserStorageKey h) blob ?w2 = (None, w3)"
    using ok(1) by (simp add: localStorage_setItem_def w3_def)
  have t3: "write_faults w3 = (\<lambda>i. write_faults w (Suc i))"
    by (simp add: w3_def)
  have f3: "\<not> write_faults w3 0"
    using ok(2) by (simp add: t3)
  note a = addUserToList_ok [OF f3, of h pw, folded w4_def]
  have s2: "addUserToList h pw w3 = (None, w4)"
    using a(1) by (simp add: prod_eq_iff w4_def)
  have t4: "write_faults w4 = (\<lambda>i. write_faults w (Suc (Suc i)))"
    by (simp add: a(5) t3)
  have s3: "sessionStorage_setItem ''masterPassword'' pw w4 = (None, w5)"
    using ok(3) by (simp add: sessionStorage_setItem_def w5_def t4 numeral_2_eq_2)
  have t5: "write_faults w5 = (\<lambda>i. write_faults w (Suc (Suc (Suc i))))"
    by (simp add: w5_def t4)
  have s4: "sessionStorage_setItem ''currentUserHash'' h w5 = (None, w6)"
    using ok(4) by (simp add: sessionStorage_setItem_def w6_def t5 numeral_3_eq_3)
  have res: "signup api pw w = (True, dispatch LOGIN (dispatch (SET_PASSWORDS []) w6))"
    unfolding signup_unfold [OF hash none e]
    by (simp add: catching_def s1 s2 s3 s4)
  have vaults: "localVaults w6 = (localVaults w)(getUserStorageKey h \<mapsto> blob)"
    by (simp add: w6_def w5_def a(2) w3_def)
  have users: "getAllUsers w6 = getAllUsers w4"
    by (simp add: getAllUsers_def w6_def w5_def)
  show "fst (signup api pw w) = True"
    by (simp add: res)
  show "localVaults (snd (signup api pw w)) = (localVaults w)(getUserStorageKey h \<mapsto> blob)"
    by (simp add: res dispatch_def vaults)
  show "\<exists>u \<in> set (getAllUsers (snd (signup api pw w))). user_hash u = h"
    using addUserToList_registers [OF f3, of h pw]
    by (simp add: res dispatch_def getAllUsers_def w6_def w5_def w4_def)
  show "sessionItems (snd (signup api pw w)) ''currentUserHash'' = Some h"
    by (simp add: res dispatch_def w6_def)
  show "sessionItems (snd (signup api pw w)) ''masterPassword'' = Some pw"
    by (simp add: res dispatch_def w6_def w5_def)
  show "isAuthenticated (app (snd (signup api pw w)))"
    by (simp add: res dispatch_def)
  show "passwords (app (snd (signup api pw w))) = []"
    by (simp add: res dispatch_def)
qed

lemma signup_first_write_fails:
  assumes hash: "getUserHash api pw = Inr h"
    and none: "\<not> truthy (localVaults w (getUserStorageKey h))"
    and e: "encrypt api (random w) (initialData_json (clock w 0)) pw = (Inr blob, r)"
    and full: "write_faults w 0"
  shows "fst (signup api pw w) = False"
    and "localVaults (snd (signup api pw w)) = localVaults w"
    and "localUsers (snd (signup api pw w)) = localUsers w"
    and "sessionItems (snd (signup api pw w)) = sessionItems w"
    and "app (snd (signup api pw w)) = app w"
  unfolding signup_unfold [OF hash none e]
  using full by (simp_all add: catching_def localStorage_setItem_def)

lemma signup_later_write_fails:
  assumes hash: "getUserHash api pw = Inr h"
    and none: "\<not> truthy (localVaults w (getUserStorageKey h))"
    and e: "encrypt api (random w) (initialData_json (clock w 0)) pw = (Inr blob, r)"
    and ok: "\<not> write_faults w 0"
    and later: "write_faults w 1 \<or> write_faults w 2 \<or> write_faults w 3"
  shows "fst (signup api pw w) = False"
    and "localVaults (snd (signup api pw w)) = (localVaults w)(getUserStorageKey h \<mapsto> blob)"
proof -
  let ?w2 = "w\<lparr> clock := (\<lambda>i. clock w (Suc i)), random := r \<rparr>"
  define w3 where "w3 = after_write (?w2\<lparr> localVaults := (localVaults w)(getUserStorageKey h \<mapsto> blob) \<rparr>)"
  define w4 where "w4 = snd (addUserToList h pw w3)"
  define w5 where "w5 = after_write (w4\<lparr> sessionItems := (sessionItems w4)(''masterPassword'' \<mapsto> pw) \<rparr>)"
  have s1: "localStorage_setItem (getUserStorageKey h) blob ?w2 = (None, w3)"
    using ok by (simp add: localStorage_setItem_def w3_def)
  have t3: "write_faults w3 = (\<lambda>i. write_faults w (Suc i))"
    and v3: "localVaults w3 = (localVaults w)(getUserStorageKey h \<mapsto> blob)"
    by (simp_all add: w3_def)
  have both: "fst (signup api pw w) = False
      \<and> localVaults (snd (signup api pw w)) = (localVaults w)(getUserStorageKey h \<mapsto> blob)"
  proof (cases "write_faults w 1")
    case True
    then have f3: "write_faults w3 0" by (simp add: t3)
    note a = addUserToList_fails [OF f3, of h pw]
    show ?thesis
      unfolding signup_unfold [OF hash none e]
      by (simp add: catching_def s1 a v3)
  next
    case False
    then have f3: "\<not> write_faults w3 0" by (simp add: t3)
    note a = addUserToList_ok [OF f3, of h pw, folded w4_def]
    have s2: "addUserToList h pw w3 = (None, w4)"
      using a(1) by (simp add: prod_eq_iff w4_def)
    have t4: "write_faults w4 = (\<lambda>i. write_faults w (Suc (Suc i)))"
      by (simp add: a(5) t3)
    have v4: "localVaults w4 = (localVaults w)(getUserStorageKey h \<mapsto> blob)"
      by (simp add: a(2) v3)
    show ?thesis
    proof (cases "write_faults w 2")
      case True
      then have "write_faults w4 0" by (simp add: t4 numeral_2_eq_2)
      then have "sessionStorage_setItem ''masterPassword'' pw w4
          = (Some (Error ''QuotaExceededError''), after_write w4)"
        by (simp add: sessionStorage_setItem_def)
      then show ?thesis
        unfolding signup_unfold [OF hash none e]
        by (simp add: catching_def s1 s2 v4)
    next
      case False
      then have s3: "sessionStorage_setItem ''masterPassword'' pw w4 = (None, w5)"
        by (simp add: sessionStorage_setItem_def w5_def t4 numeral_2_eq_2)
      have t5: "write_faults w5 = (\<lambda>i. write_faults w (Suc (Suc (Suc i))))"
        by (simp add: w5_def t4)
      have v5: "localVaults w5 = (localVaults w)(getUserStorageKey h \<mapsto> blob)"
        by (simp add: w5_def v4)
      have "write_faults w 3"
        using later \<open>\<not> write_faults w 1\<close> False by blast
      then have "write_faults w5 0" by (simp add: t5 numeral_3_eq_3)
      then have "sessionStorage_setItem ''currentUserHash'' h w5
          = (Some (Error ''QuotaExceededError''), after_write w5)"
        by (simp add: sessionStorage_setItem_def)
      then show ?thesis
        unfolding signup_unfold [OF hash none e]
        by (simp add: catching_def s1 s2 s3 v5)
    qed
  qed
  show "fst (signup api pw w) = False"
    and "localVaults (snd (signup api pw w)) = (localVaults w)(getUserStorageKey h \<mapsto> blob)"
    using both by simp_all
qed

lemma signup_no_hash: "getUserHash api pw = Inl e \<Longrightarrow> signup api pw w = (False, w)"
  by (simp add: signup_def)

lemma signup_blob_decrypts:
  assumes "decrypt_inverts_encrypt api" and "isWellFormed created"
    and "encrypt api r0 (initialData_json created) pw = (Inr blob, r)"
  shows "decrypt api blob pw = Inr (initialData_json created)"
proof -
  have "TextDecoder_decode (TextEncoder_encode (initialData_json created))
      = initialData_json created"
    by (rule decode_encode_wellformed)
       (simp_all add: wellformed_initialData assms(2) hd_initialData)
  then show ?thesis
    using decrypt_encrypt_general [OF assms(1) assms(3)] by simp
qed

lemma length_utf8_bytes: "length (utf8_bytes cp) \<le> (if cp < 0x10000 then 3 else 4)"
  by (simp add: utf8_bytes_def)

lemma length_encode_bound: "length (TextEncoder_encode s) \<le> 3 * length s"
proof -
  have "length (concat (map utf8_bytes (scalar_values s))) \<le> 3 * length s"
  proof (induction s rule: scalar_values.induct)
    case 1
    show ?case by simp
  next
    case (2 c)
    have "unat c < 0x10000" using unat_unit_bound [of c] by simp
    then show ?case
      using length_utf8_bytes [of "unat c"] length_utf8_bytes [of "0xFFFD"]
      by (simp add: scalar_values_single)
  next
    case (3 c d cs)
    show ?case
    proof (cases "is_high_surrogate c \<and> is_low_surrogate d")
      case True
      have "length (utf8_bytes (pair_value c d)) \<le> 4"
        using length_utf8_bytes [of "pair_value c d"] by (simp split: if_splits)
      moreover have "length (concat (map utf8_bytes (scalar_values cs))) \<le> 3 * length cs"
        using 3(1) True by simp
      ultimately show ?thesis
        unfolding scalar_values_step using True by simp
    next
      case False
      let ?x = "if is_high_surrogate c \<or> is_low_surrogate c then 0xFFFD else unat c"
      have "?x < 0x10000" using unat_unit_bound [of c] by simp
      then have "length (utf8_bytes ?x) \<le> 3"
        using length_utf8_bytes [of ?x] by simp
      moreover have "length (concat (map utf8_bytes (scalar_values (d # cs)))) \<le> 3 * length (d # cs)"
        using 3(2) 3(3) 3(4) False by blast
      moreover have "scalar_values (c # d # cs) = ?x # scalar_values (d # cs)"
        using False by (simp only: scalar_values_step if_False)
      ultimately show ?thesis
        by (simp del: scalar_values.simps)
    qed
  qed
  then show ?thesis by (simp add: TextEncoder_encode_def)
qed

lemma demo_hash: "getUserHash demo_crypto (js ''pw'') = Inr (js ''7077'')"
  unfolding getUserHash_def encode_pw
  by (simp add: demo_crypto_def toString16_def padStart2_def hex_digit_def js_def unit_of_nat_def)

lemma length_demo_json: "length (initialData_json (js ''2024-01-01T00:00:00.000Z'')) \<le> 1000"
  by (simp add: initialData_json_def js_def)

lemma wellformed_js: "isWellFormed (js s)"
  using isWellFormed_prepend [OF js_non_surrogate, of s "[]"] by simp

lemma length_encode_lower: "length s \<le> length (TextEncoder_encode s)"
proof -
  have one: "1 \<le> length (utf8_bytes x)" for x
    by (simp add: utf8_bytes_def)
  have "length s \<le> length (concat (map utf8_bytes (scalar_values s)))"
  proof (induction s rule: scalar_values.induct)
    case 1
    show ?case by simp
  next
    case (2 c)
    show ?case
      using one [of "0xFFFD"] one [of "unat c"] by (simp add: scalar_values_single)
  next
    case (3 c d cs)
    show ?case
    proof (cases "is_high_surrogate c \<and> is_low_surrogate d")
      case True
      have "length (utf8_bytes (pair_value c d)) = 4"
        by (simp add: utf8_bytes_def pair_value_def)
      moreover have "length cs \<le> length (concat (map utf8_bytes (scalar_values cs)))"
        using 3(1) True by simp
      ultimately show ?thesis
        unfolding scalar_values_step using True by simp
    next
      case False
      let ?x = "if is_high_surrogate c \<or> is_low_surrogate c then 0xFFFD else unat c"
      have "1 \<le> length (utf8_bytes ?x)"
        by (rule one)
      moreover have "length (d # cs) \<le> length (concat (map utf8_bytes (scalar_values (d # cs))))"
        using 3(2) 3(3) 3(4) False by blast
      moreover have "scalar_values (c # d # cs) = ?x # scalar_values (d # cs)"
        using False by (simp only: scalar_values_step if_False)
      ultimately show ?thesis
        by (simp del: scalar_values.simps)
    qed
  qed
  then show ?thesis by (simp add: TextEncoder_encode_def)
qed

lemma wellformed_replicate: "non_surrogate c \<Longrightarrow> isWellFormed (replicate n c)"
  using isWellFormed_prepend [of "replicate n c" "[]"] by simp

lemma long_plaintext_facts:
  "isWellFormed long_plaintext" "hd long_plaintext \<noteq> 0xFEFF"
  "max_arguments demo_crypto
     < 48 + length (ciphertext_of demo_crypto demo_rng long_plaintext (js ''pw''))"
proof -
  have "non_surrogate (0x61 :: code_unit)"
    by (simp add: non_surrogate_def is_high_surrogate_def is_low_surrogate_def)
  then show "isWellFormed long_plaintext"
    unfolding long_plaintext_def by (rule wellformed_replicate)
  have "hd (replicate 65536 (0x61 :: code_unit)) = 0x61"
    by (rule hd_replicate) simp
  then show "hd long_plaintext \<noteq> 0xFEFF"
    by (simp only: long_plaintext_def) simp
  have "length long_plaintext = 65536"
    by (simp only: long_plaintext_def length_replicate)
  then have "65536 \<le> length (TextEncoder_encode long_plaintext)"
    using length_encode_lower [of long_plaintext] by simp
  moreover have "length (ciphertext_of demo_crypto demo_rng long_plaintext (js ''pw''))
      = length (TextEncoder_encode long_plaintext) + 16"
    unfolding demo_ciphertext by simp
  moreover have "max_arguments demo_crypto = 65535"
    by (simp add: demo_crypto_def)
  ultimately show "max_arguments demo_crypto
     < 48 + length (ciphertext_of demo_crypto demo_rng long_plaintext (js ''pw''))"
    by simp
qed

lemma demo_signup_encrypt:
  "encrypt demo_crypto demo_rng (initialData_json (js ''2024-01-01T00:00:00.000Z'')) (js ''pw'')
     = (Inr demo_signup_blob, \<lambda>i. demo_rng (48 + i))"
proof -
  have "length (TextEncoder_encode (initialData_json (js ''2024-01-01T00:00:00.000Z'')))
      \<le> 3 * length (initialData_json (js ''2024-01-01T00:00:00.000Z''))"
    by (rule length_encode_bound)
  then have "length (TextEncoder_encode (initialData_json (js ''2024-01-01T00:00:00.000Z'')))
      \<le> 60000"
    using length_demo_json by linarith
  then have "fst (encrypt demo_crypto demo_rng
                    (initialData_json (js ''2024-01-01T00:00:00.000Z'')) (js ''pw''))
      = Inr demo_signup_blob"
    unfolding demo_signup_blob_def by (rule demo_encrypt)
  then show ?thesis
    by (simp add: prod_eq_iff encrypt_unfold)
qed

section \<open>Reuse detection\<close>

lemma first_keys_snoc:
  "first_keys (ps @ [e]) =
     (if password e \<in> set (first_keys ps) then first_keys ps else first_keys ps @ [password e])"
  by (simp add: first_keys_def)

lemma set_first_keys: "set (first_keys ps) = password ` set ps"
  by (simp add: first_keys_def)

lemma distinct_first_keys: "distinct (first_keys ps)"
  by (simp add: first_keys_def)

lemma group_of_snoc:
  "group_of (ps @ [e]) k = group_of ps k @ (if password e = k then [e] else [])"
  by (simp add: group_of_def)

lemma jsmap_get_tabulate:
  "jsmap_get (map (\<lambda>k. (k, f k)) ks) k = (if k \<in> set ks then Some (f k) else None)"
  by (induction ks) auto

lemma jsmap_set_tabulate_present:
  "k \<in> set ks \<Longrightarrow> distinct ks \<Longrightarrow>
   jsmap_set (map (\<lambda>k. (k, f k)) ks) k v = map (\<lambda>k'. (k', if k' = k then v else f k')) ks"
  by (induction ks) auto

lemma jsmap_set_tabulate_absent:
  "k \<notin> set ks \<Longrightarrow>
   jsmap_set (map (\<lambda>k. (k, f k)) ks) k v = map (\<lambda>k. (k, f k)) ks @ [(k, v)]"
  by (induction ks) auto

lemma group_of_absent: "k \<notin> password ` set ps \<Longrightarrow> group_of ps k = []"
  by (auto simp: group_of_def filter_empty_conv)

text \<open>After the first loop the map holds, for each secret in order of first occurrence,
  the entries that carry it.\<close>

lemma passwordMap_eq:
  "foldl group_entry [] ps = map (\<lambda>k. (k, group_of ps k)) (first_keys ps)"
proof (induction ps rule: rev_induct)
  case Nil
  show ?case by (simp add: first_keys_def)
next
  case (snoc e ps)
  let ?k = "password e"
  show ?case
  proof (cases "?k \<in> set (first_keys ps)")
    case True
    have "group_entry (map (\<lambda>k. (k, group_of ps k)) (first_keys ps)) e
          = map (\<lambda>k'. (k', if k' = ?k then group_of ps ?k @ [e] else group_of ps k')) (first_keys ps)"
      using True
      by (simp add: group_entry_def jsmap_get_tabulate jsmap_set_tabulate_present
          distinct_first_keys)
    also have "\<dots> = map (\<lambda>k. (k, group_of (ps @ [e]) k)) (first_keys ps)"
      by (rule map_cong) (auto simp: group_of_snoc)
    finally show ?thesis
      using True snoc by (simp add: first_keys_snoc)
  next
    case False
    then have empty: "group_of ps ?k = []"
      by (simp add: group_of_absent set_first_keys)
    have "group_entry (map (\<lambda>k. (k, group_of ps k)) (first_keys ps)) e
          = map (\<lambda>k. (k, group_of ps k)) (first_keys ps) @ [(?k, [e])]"
      using False
      by (simp add: group_entry_def jsmap_get_tabulate jsmap_set_tabulate_absent)
    also have "\<dots> = map (\<lambda>k. (k, group_of (ps @ [e]) k)) (first_keys ps @ [?k])"
      using False empty by (auto simp: group_of_snoc)
    finally show ?thesis
      using False snoc by (simp add: first_keys_snoc)
  qed
qed

lemma collect_reused_foldl:
  "foldl collect_reused acc m = acc @ concat (map snd (filter (\<lambda>kv. length (snd kv) > 1) m))"
  by (induction m arbitrary: acc) (auto simp: collect_reused_def)

lemma findReused_eq:
  "findReusedPasswords ps =
     concat (map (group_of ps) (filter (\<lambda>k. length (group_of ps k) > 1) (first_keys ps)))"
  by (simp add: findReusedPasswords_def passwordMap_eq collect_reused_foldl filter_map o_def)

lemma mset_groups:
  "distinct ks \<Longrightarrow>
   mset (concat (map (group_of ps) (filter Q ks)))
     = mset (filter (\<lambda>e. Q (password e) \<and> password e \<in> set ks) ps)"
proof (induction ks)
  case Nil
  then show ?case by simp
next
  case (Cons k ks)
  then have k: "k \<notin> set ks" and d: "distinct ks" by auto
  have split: "mset (filter (\<lambda>e. Q (password e) \<and> password e \<in> set (k # ks)) ps)
      = mset (filter (\<lambda>e. Q (password e) \<and> password e = k) ps)
        + mset (filter (\<lambda>e. Q (password e) \<and> password e \<in> set ks) ps)"
    using k by (induction ps) auto
  have hd: "mset (filter (\<lambda>e. Q (password e) \<and> password e = k) ps)
      = (if Q k then mset (group_of ps k) else {#})"
    by (induction ps) (auto simp: group_of_def)
  have "mset (concat (map (group_of ps) (filter Q (k # ks))))
      = (if Q k then mset (group_of ps k) else {#})
        + mset (concat (map (group_of ps) (filter Q ks)))"
    by simp
  also have "\<dots> = mset (filter (\<lambda>e. Q (password e) \<and> password e = k) ps)
        + mset (filter (\<lambda>e. Q (password e) \<and> password e \<in> set ks) ps)"
    by (simp only: hd Cons.IH [OF d])
  finally show ?case
    by (simp only: split)
qed

lemma mset_findReused:
  "mset (findReusedPasswords ps)
     = mset (filter (\<lambda>e. length (filter (\<lambda>e'. password e' = password e) ps) > 1) ps)"
proof -
  have "mset (findReusedPasswords ps)
      = mset (filter (\<lambda>e. length (group_of ps (password e)) > 1
                         \<and> password e \<in> set (first_keys ps)) ps)"
    by (simp add: findReused_eq mset_groups distinct_first_keys)
  also have "\<dots> = mset (filter (\<lambda>e. length (group_of ps (password e)) > 1) ps)"
    by (rule arg_cong [where f = mset], rule filter_cong) (auto simp: set_first_keys)
  finally show ?thesis by (simp add: group_of_def)
qed

section \<open>Rounding to the nearest double\<close>

lemma round_half_even_error: "\<bar>of_int (round_half_even y) - y\<bar> \<le> 1 / 2"
proof -
  have "of_int \<lfloor>y\<rfloor> \<le> y" "y < of_int \<lfloor>y\<rfloor> + 1" by linarith+
  then show ?thesis
    by (auto simp add: round_half_even_def Let_def)
qed

lemma round_half_even_le: "y \<le> of_int N \<Longrightarrow> round_half_even y \<le> N"
proof -
  assume a: "y \<le> of_int N"
  have f: "of_int \<lfloor>y\<rfloor> \<le> y" by linarith
  show ?thesis
  proof (cases "\<lfloor>y\<rfloor> < N")
    case True
    then show ?thesis by (simp add: round_half_even_def Let_def)
  next
    case False
    then have "N \<le> \<lfloor>y\<rfloor>" by simp
    then have "of_int N \<le> y" using f by linarith
    then have "y = of_int N" using a by simp
    then show ?thesis by (simp add: round_half_even_def Let_def)
  qed
qed

lemma round_half_even_ge: "of_int N \<le> y \<Longrightarrow> N \<le> round_half_even y"
proof -
  assume a: "of_int N \<le> y"
  then have "N \<le> \<lfloor>y\<rfloor>" by (simp add: le_floor_iff)
  then show ?thesis by (simp add: round_half_even_def Let_def)
qed

lemma round_half_even_of_int [simp]: "round_half_even (of_int n) = n"
  by (simp add: round_half_even_def Let_def)

lemma binade_bounds:
  assumes "x \<noteq> 0"
  shows "2 powi binade x \<le> \<bar>x\<bar>" and "\<bar>x\<bar> < 2 powi (binade x + 1)"
proof -
  have both: "2 powi binade x \<le> \<bar>x\<bar> \<and> \<bar>x\<bar> < 2 powi (binade x + 1)"
  proof (cases "1 \<le> \<bar>x\<bar>")
    case True
    define n where "n = \<lfloor>\<bar>x\<bar>\<rfloor>"
    have n1: "1 \<le> n" using True by (simp add: n_def le_floor_iff)
    then have n0: "0 < n" by simp
    have b1: "1 \<le> bitlen n" using n0 by (auto simp: bitlen_alt_def)
    have bnd: "2 ^ nat (bitlen n - 1) \<le> n" "n < 2 ^ nat (bitlen n)"
      using bitlen_bounds [OF n0] by simp_all
    have e: "binade x = bitlen n - 1" using True by (simp add: binade_def n_def)
    have nx: "of_int n \<le> \<bar>x\<bar>" "\<bar>x\<bar> < of_int n + 1" by (simp_all add: n_def)
    have p1: "(2::real) powi binade x = 2 ^ nat (bitlen n - 1)"
      using b1 by (simp add: e power_int_def)
    have p2: "(2::real) powi (binade x + 1) = 2 ^ nat (bitlen n)"
      using b1 by (simp add: e power_int_def)
    have le1: "(2::real) ^ nat (bitlen n - 1) \<le> of_int n"
      using bnd(1) by (metis of_int_le_iff of_int_numeral of_int_power)
    have "n + 1 \<le> 2 ^ nat (bitlen n)" using bnd(2) by simp
    then have "of_int (n + 1) \<le> (2::real) ^ nat (bitlen n)"
      by (metis of_int_le_iff of_int_numeral of_int_power)
    then have le2: "of_int n + 1 \<le> (2::real) ^ nat (bitlen n)" by simp
    show ?thesis unfolding p1 p2 using le1 le2 nx by linarith
  next
    case False
    then have x1: "\<bar>x\<bar> < 1" by simp
    have x0: "0 < \<bar>x\<bar>" using assms by simp
    define y where "y = 1 / \<bar>x\<bar>"
    have y1: "1 < y" using x0 x1 by (simp add: y_def)
    define m where "m = \<lceil>y\<rceil> - 1"
    have m0: "0 < m" using y1 by (simp add: m_def less_ceiling_iff)
    have my: "of_int m < y" "y \<le> of_int m + 1" by (simp_all add: m_def) linarith+
    have b1: "1 \<le> bitlen m" using m0 by (auto simp: bitlen_alt_def)
    have bnd: "2 ^ nat (bitlen m - 1) \<le> m" "m < 2 ^ nat (bitlen m)"
      using bitlen_bounds [OF m0] by simp_all
    have e: "binade x = - bitlen m" using False by (simp add: binade_def m_def y_def)
    have p1: "(2::real) powi binade x = 1 / 2 ^ nat (bitlen m)"
      using b1 by (simp add: e power_int_def field_simps)
    have p2: "(2::real) powi (binade x + 1) = 1 / 2 ^ nat (bitlen m - 1)"
      using b1 by (simp add: e power_int_def field_simps)
    have le1: "(2::real) ^ nat (bitlen m - 1) \<le> of_int m"
      using bnd(1) by (metis of_int_le_iff of_int_numeral of_int_power)
    have "m + 1 \<le> 2 ^ nat (bitlen m)" using bnd(2) by simp
    then have "of_int (m + 1) \<le> (2::real) ^ nat (bitlen m)"
      by (metis of_int_le_iff of_int_numeral of_int_power)
    then have le2: "of_int m + 1 \<le> (2::real) ^ nat (bitlen m)" by simp
    have a: "y \<le> 2 ^ nat (bitlen m)" using le2 my by linarith
    have b: "2 ^ nat (bitlen m - 1) < y" using le1 my by linarith
    have xy: "\<bar>x\<bar> = 1 / y" by (simp add: y_def)
    have y0: "0 < y" using y1 by simp
    have "1 / 2 ^ nat (bitlen m) \<le> 1 / y"
      using a y0 by (simp add: frac_le)
    moreover have "1 / y < 1 / 2 ^ nat (bitlen m - 1)"
      using b by (simp add: frac_less2)
    ultimately show ?thesis unfolding p1 p2 xy by simp
  qed
  show "2 powi binade x \<le> \<bar>x\<bar>" using both by simp
  show "\<bar>x\<bar> < 2 powi (binade x + 1)" using both by simp
qed

lemma binade_unique:
  assumes "2 powi e \<le> \<bar>x\<bar>" and "\<bar>x\<bar> < 2 powi (e + 1)"
  shows "binade x = e"
proof -
  have "(0::real) < 2 powi e" by simp
  then have "0 < \<bar>x\<bar>" using assms(1) by linarith
  then have x0: "x \<noteq> 0" by simp
  note b = binade_bounds [OF x0]
  have "(2::real) powi e < 2 powi (binade x + 1)" using assms(1) b(2) by linarith
  then have "e < binade x + 1"
    by (metis not_less power_int_increasing one_le_numeral)
  moreover have "(2::real) powi binade x < 2 powi (e + 1)" using assms(2) b(1) by linarith
  then have "binade x < e + 1"
    by (metis not_less power_int_increasing one_le_numeral)
  ultimately show ?thesis by simp
qed

lemma ulp_pos: "0 < ulp x"
  by (simp add: ulp_def)

lemma to_double_error: "\<bar>to_double x - x\<bar> \<le> \<bar>x\<bar> / 2 ^ 53"
proof (cases "x = 0")
  case True
  then show ?thesis by (simp add: to_double_def)
next
  case False
  define u where "u = ulp x"
  have u0: "0 < u" by (simp add: u_def ulp_pos)
  have "\<bar>of_int (round_half_even (x / u)) - x / u\<bar> \<le> 1 / 2"
    by (rule round_half_even_error)
  then have "\<bar>of_int (round_half_even (x / u)) - x / u\<bar> * u \<le> 1 / 2 * u"
    using u0 by (simp add: mult_right_mono)
  moreover have "\<bar>of_int (round_half_even (x / u)) - x / u\<bar> * u
      = \<bar>(of_int (round_half_even (x / u)) - x / u) * u\<bar>"
    using u0 by (simp add: abs_mult)
  moreover have "(of_int (round_half_even (x / u)) - x / u) * u
      = of_int (round_half_even (x / u)) * u - x"
    using u0 by (simp add: left_diff_distrib)
  ultimately have e1: "\<bar>to_double x - x\<bar> \<le> u / 2"
    using False by (simp add: to_double_def u_def)
  have "u = 2 powi binade x / 2 ^ 52"
    by (simp add: u_def ulp_def power_int_diff)
  then have "u / 2 \<le> \<bar>x\<bar> / 2 ^ 53"
    using binade_bounds(1) [OF False] by (simp add: field_simps)
  then show ?thesis using e1 by linarith
qed


lemma to_double_eval:
  assumes "2 powi e \<le> \<bar>x\<bar>" and "\<bar>x\<bar> < 2 powi (e + 1)"
    and "round_half_even (x / 2 powi (e - 52)) = m"
  shows "to_double x = of_int m * 2 powi (e - 52)"
proof -
  have "(0::real) < 2 powi e" by simp
  then have "0 < \<bar>x\<bar>" using assms(1) by linarith
  then have x0: "x \<noteq> 0" by simp
  show ?thesis
    using x0 assms(3) by (simp add: to_double_def ulp_def binade_unique [OF assms(1,2)])
qed

lemma to_double_0 [simp]: "to_double 0 = 0"
  by (simp add: to_double_def)

lemma to_double_nonneg: "0 \<le> x \<Longrightarrow> 0 \<le> to_double x"
proof -
  assume a: "0 \<le> x"
  have "0 \<le> x / ulp x" using a ulp_pos [of x] by simp
  then have "0 \<le> round_half_even (x / ulp x)"
    using round_half_even_ge [of 0 "x / ulp x"] by simp
  then show ?thesis
    using ulp_pos [of x] by (simp add: to_double_def)
qed

lemma to_double_of_int:
  assumes "\<bar>k\<bar> < 2 ^ 53"
  shows "to_double (of_int k) = of_int k"
proof (cases "k = 0")
  case True
  then show ?thesis by simp
next
  case False
  define x :: real where "x = of_int k"
  have x0: "x \<noteq> 0" using False by (simp add: x_def)
  have "\<bar>x\<bar> < 2 ^ 53"
    using assms unfolding x_def
    by (metis of_int_abs of_int_less_iff of_int_numeral of_int_power)
  then have "(2::real) powi binade x < 2 powi 53"
    using binade_bounds(1) [OF x0] by simp
  then have b: "binade x < 53"
    by (metis not_less power_int_increasing one_le_numeral)
  define j where "j = nat (52 - binade x)"
  have u: "ulp x = 1 / 2 ^ j"
    using b by (simp add: ulp_def j_def power_int_def field_simps)
  have "x / ulp x = x * 2 ^ j"
    by (simp add: u)
  also have "\<dots> = of_int (k * 2 ^ j)"
    by (simp add: x_def)
  finally have "round_half_even (x / ulp x) = k * 2 ^ j"
    by (simp only: round_half_even_of_int)
  then have "to_double x = of_int (k * 2 ^ j) * ulp x"
    using x0 by (simp add: to_double_def)
  also have "\<dots> = of_int (k * 2 ^ j) * (1 / 2 ^ j)"
    by (simp only: u)
  also have "\<dots> = of_int k"
    by simp
  finally show ?thesis by (simp add: x_def)
qed

lemma to_double_le_100:
  assumes "x \<le> 100"
  shows "to_double x \<le> 100"
proof (cases "x \<le> 0")
  case True
  then have "x / ulp x \<le> of_int 0" using ulp_pos [of x] by (simp add: divide_le_0_iff)
  then have "round_half_even (x / ulp x) \<le> 0" by (rule round_half_even_le)
  then have "of_int (round_half_even (x / ulp x)) * ulp x \<le> 0"
    using ulp_pos [of x] by (simp add: mult_le_0_iff)
  then show ?thesis by (simp add: to_double_def)
next
  case False
  then have x0: "x \<noteq> 0" and xp: "0 < x" by simp_all
  have "(2::real) powi binade x \<le> 100" using binade_bounds(1) [OF x0] assms xp by simp
  then have "(2::real) powi binade x < 2 powi 7" by simp
  then have b: "binade x < 7"
    by (metis not_less power_int_increasing one_le_numeral)
  define j where "j = nat (52 - binade x)"
  have u: "ulp x = 1 / 2 ^ j"
    using b by (simp add: ulp_def j_def power_int_def field_simps)
  have "x / ulp x \<le> of_int (100 * 2 ^ j)"
    using assms by (simp add: u)
  then have "round_half_even (x / ulp x) \<le> 100 * 2 ^ j" by (rule round_half_even_le)
  then have "(of_int (round_half_even (x / ulp x)) :: real) \<le> of_int (100 * 2 ^ j)"
    by (simp only: of_int_le_iff)
  then have "of_int (round_half_even (x / ulp x)) * ulp x \<le> 100"
    by (simp add: u field_simps)
  then show ?thesis using x0 by (simp add: to_double_def)
qed

lemma penalty_bound:
  assumes "c \<le> n" and "0 < n" and "0 \<le> w" and "w \<le> 30"
  shows "\<bar>fmul (fdiv (real c) (real n)) w - w * (real c / real n)\<bar> \<le> 1 / 2 ^ 46"
    and "0 \<le> fmul (fdiv (real c) (real n)) w"
    and "fmul (fdiv (real c) (real n)) w \<le> 31"
proof -
  define x where "x = real c / real n"
  define q where "q = fdiv (real c) (real n)"
  define p where "p = fmul q w"
  define eps :: real where "eps = 1 / 2 ^ 53"
  have eps: "0 < eps" "eps \<le> 1" "90 * eps \<le> 1 / 2 ^ 46" "1 / 2 ^ 46 \<le> (1::real)"
    by (simp_all add: eps_def)
  have x01: "0 \<le> x" "x \<le> 1" using assms(1,2) by (simp_all add: x_def)
  have "\<bar>q - x\<bar> \<le> \<bar>x\<bar> / 2 ^ 53" unfolding q_def fdiv_def x_def by (rule to_double_error)
  also have "\<dots> = x * eps" using x01 by (simp add: eps_def)
  also have "\<dots> \<le> 1 * eps" using x01 eps(1) by (intro mult_right_mono) simp_all
  finally have qe: "\<bar>q - x\<bar> \<le> eps" by simp
  have q0: "0 \<le> q" unfolding q_def fdiv_def using x01(1) by (simp add: to_double_nonneg x_def)
  have q2: "q \<le> 2" using qe x01 eps by linarith
  have qw0: "0 \<le> q * w" using q0 assms(3) by simp
  have "q * w \<le> 2 * 30" using q2 assms(3,4) q0 by (intro mult_mono) simp_all
  then have qw1: "q * w \<le> 60" by simp
  have "\<bar>p - q * w\<bar> \<le> \<bar>q * w\<bar> / 2 ^ 53" unfolding p_def fmul_def by (rule to_double_error)
  also have "\<dots> = (q * w) * eps" using qw0 by (simp add: eps_def)
  also have "\<dots> \<le> 60 * eps" using qw1 eps(1) by (intro mult_right_mono) simp_all
  finally have pe: "\<bar>p - q * w\<bar> \<le> 60 * eps" .
  have "q * w - w * x = (q - x) * w" by (simp add: algebra_simps)
  then have "\<bar>q * w - w * x\<bar> = \<bar>q - x\<bar> * w" using assms(3) by (simp add: abs_mult)
  also have "\<dots> \<le> eps * 30" using qe assms(3,4) eps(1) by (intro mult_mono) simp_all
  finally have de: "\<bar>q * w - w * x\<bar> \<le> 30 * eps" by simp
  have main: "\<bar>p - w * x\<bar> \<le> 1 / 2 ^ 46" using pe de eps(3) by linarith
  have "w * x \<le> 30 * 1" using assms(3,4) x01 by (intro mult_mono) simp_all
  then have wx: "w * x \<le> 30" by simp
  show "\<bar>fmul (fdiv (real c) (real n)) w - w * (real c / real n)\<bar> \<le> 1 / 2 ^ 46"
    using main by (simp add: p_def q_def x_def)
  show "0 \<le> fmul (fdiv (real c) (real n)) w"
    using qw0 by (simp add: fmul_def to_double_nonneg flip: q_def)
  show "fmul (fdiv (real c) (real n)) w \<le> 31"
    using main wx eps(4) unfolding p_def q_def x_def by linarith
qed

lemma fsub_bound:
  assumes "\<bar>a - b\<bar> \<le> 128"
  shows "\<bar>fsub a b - (a - b)\<bar> \<le> 1 / 2 ^ 46"
proof -
  have "\<bar>fsub a b - (a - b)\<bar> \<le> \<bar>a - b\<bar> / 2 ^ 53"
    unfolding fsub_def by (rule to_double_error)
  also have "\<dots> \<le> 128 / 2 ^ 53" using assms by (simp add: divide_right_mono)
  also have "\<dots> = 1 / 2 ^ 46" by simp
  finally show ?thesis .
qed

lemma abs_diff_leD: "\<bar>a - b\<bar> \<le> d \<Longrightarrow> a \<le> b + d \<and> b \<le> a + (d::real)"
  by linarith

lemma js_score_close:
  assumes "0 < n" "w \<le> n" "r \<le> n" "e \<le> n" "c \<le> n"
  shows "\<bar>js_score w r e c n - spec_score w r e c n\<bar> \<le> 1 / 2 ^ 43"
    and "0 \<le> js_score w r e c n" and "js_score w r e c n \<le> 100"
proof -
  define p1 where "p1 = fmul (fdiv (real w) (real n)) 30"
  define p2 where "p2 = fmul (fdiv (real r) (real n)) 25"
  define p3 where "p3 = fmul (fdiv (real e) (real n)) 20"
  define p4 where "p4 = fmul (fdiv (real c) (real n)) 25"
  define t1 where "t1 = 30 * (real w / real n)"
  define t2 where "t2 = 25 * (real r / real n)"
  define t3 where "t3 = 20 * (real e / real n)"
  define t4 where "t4 = 25 * (real c / real n)"
  define X1 where "X1 = fsub 100 p1"
  define X2 where "X2 = fsub X1 p2"
  define X3 where "X3 = fsub X2 p3"
  define X4 where "X4 = fsub X3 p4"
  define d :: real where "d = 1 / 2 ^ 46"
  have d: "0 < d" "d \<le> 1" "8 * d = 1 / 2 ^ 43" by (simp_all add: d_def)
  have b1: "\<bar>p1 - t1\<bar> \<le> d" "0 \<le> p1" "p1 \<le> 31"
    unfolding p1_def t1_def d_def using penalty_bound [OF assms(2,1), of 30] by simp_all
  have b2: "\<bar>p2 - t2\<bar> \<le> d" "0 \<le> p2" "p2 \<le> 31"
    unfolding p2_def t2_def d_def using penalty_bound [OF assms(3,1), of 25] by simp_all
  have b3: "\<bar>p3 - t3\<bar> \<le> d" "0 \<le> p3" "p3 \<le> 31"
    unfolding p3_def t3_def d_def using penalty_bound [OF assms(4,1), of 20] by simp_all
  have b4: "\<bar>p4 - t4\<bar> \<le> d" "0 \<le> p4" "p4 \<le> 31"
    unfolding p4_def t4_def d_def using penalty_bound [OF assms(5,1), of 25] by simp_all
  note c1 = abs_diff_leD [OF b1(1)] and c2 = abs_diff_leD [OF b2(1)]
    and c3 = abs_diff_leD [OF b3(1)] and c4 = abs_diff_leD [OF b4(1)]
  have t: "0 \<le> t1" "0 \<le> t2" "0 \<le> t3" "0 \<le> t4" by (simp_all add: t1_def t2_def t3_def t4_def)
  have e1: "\<bar>X1 - (100 - p1)\<bar> \<le> d"
  proof -
    have "\<bar>100 - p1\<bar> \<le> 128" using b1(2,3) by linarith
    then show ?thesis unfolding X1_def d_def by (rule fsub_bound)
  qed
  note f1 = abs_diff_leD [OF e1]
  have u1: "X1 \<le> 100" unfolding X1_def fsub_def using b1 by (intro to_double_le_100) simp
  have l1: "0 \<le> X1" using f1 b1(3) d(2) by linarith
  have e2: "\<bar>X2 - (X1 - p2)\<bar> \<le> d"
  proof -
    have "\<bar>X1 - p2\<bar> \<le> 128" using b2(2,3) u1 l1 by linarith
    then show ?thesis unfolding X2_def d_def by (rule fsub_bound)
  qed
  note f2 = abs_diff_leD [OF e2]
  have u2: "X2 \<le> 100" unfolding X2_def fsub_def using b2 u1 by (intro to_double_le_100) simp
  have l2: "- 32 \<le> X2" using f2 b2(3) l1 d(2) by linarith
  have e3: "\<bar>X3 - (X2 - p3)\<bar> \<le> d"
  proof -
    have "\<bar>X2 - p3\<bar> \<le> 128" using b3(2,3) u2 l2 by linarith
    then show ?thesis unfolding X3_def d_def by (rule fsub_bound)
  qed
  note f3 = abs_diff_leD [OF e3]
  have u3: "X3 \<le> 100" unfolding X3_def fsub_def using b3 u2 by (intro to_double_le_100) simp
  have l3: "- 64 \<le> X3" using f3 b3(3) l2 d(2) by linarith
  have e4: "\<bar>X4 - (X3 - p4)\<bar> \<le> d"
  proof -
    have "\<bar>X3 - p4\<bar> \<le> 128" using b4(2,3) u3 l3 by linarith
    then show ?thesis unfolding X4_def d_def by (rule fsub_bound)
  qed
  note f4 = abs_diff_leD [OF e4]
  have u4: "X4 \<le> 100" unfolding X4_def fsub_def using b4 u3 by (intro to_double_le_100) simp
  define E where "E = 100 - t1 - t2 - t3 - t4"
  have up: "X4 \<le> E + 8 * d" unfolding E_def using c1 c2 c3 c4 f1 f2 f3 f4 by linarith
  have lo: "E \<le> X4 + 8 * d" unfolding E_def using c1 c2 c3 c4 f1 f2 f3 f4 by linarith
  have E100: "min 100 E = E" unfolding E_def using t by simp
  have js: "js_score w r e c n = max 0 X4"
    by (simp add: js_score_def X4_def X3_def X2_def X1_def p1_def p2_def p3_def p4_def)
  have sp: "spec_score w r e c n = max 0 (min 100 E)"
    using assms(1) by (simp add: spec_score_def E_def t1_def t2_def t3_def t4_def)
  show "\<bar>js_score w r e c n - spec_score w r e c n\<bar> \<le> 1 / 2 ^ 43"
    unfolding js sp E100 d(3) [symmetric] using up lo d(1) by linarith
  show "0 \<le> js_score w r e c n" unfolding js by simp
  show "js_score w r e c n \<le> 100" unfolding js using u4 by simp
qed


lemma to_double_numeral [simp]: "to_double 100 = 100" "to_double 30 = 30" "to_double 25 = 25"
  "to_double 20 = 20" "to_double 70 = 70" "to_double 45 = 45" "to_double 1 = 1"
  using to_double_of_int [of 100] to_double_of_int [of 30] to_double_of_int [of 25]
    to_double_of_int [of 20] to_double_of_int [of 70] to_double_of_int [of 45]
    to_double_of_int [of 1]
  by simp_all

lemma js_score_worst: "0 < n \<Longrightarrow> js_score n n n n n = 0"
  by (simp add: js_score_def fdiv_def fmul_def fsub_def)

lemma fdiv_2_3: "fdiv 2 3 = 6004799503160661 / 2 ^ 53"
  unfolding fdiv_def using to_double_eval [of "-1" "2 / 3" 6004799503160661]
  by (simp add: round_half_even_def Let_def)

lemma fdiv_1_3: "fdiv 1 3 = 6004799503160661 / 2 ^ 54"
  unfolding fdiv_def using to_double_eval [of "-2" "1 / 3" 6004799503160661]
  by (simp add: round_half_even_def Let_def)

lemma fmul_r: "fmul (6004799503160661 / 2 ^ 53) 25 = 4691249611844266 / 2 ^ 48"
  unfolding fmul_def using to_double_eval [of 4 "6004799503160661 / 2 ^ 53 * 25" 4691249611844266]
  by (simp add: round_half_even_def Let_def)

lemma fmul_c: "fmul (6004799503160661 / 2 ^ 54) 25 = 4691249611844266 / 2 ^ 49"
  unfolding fmul_def using to_double_eval [of 3 "6004799503160661 / 2 ^ 54 * 25" 4691249611844266]
  by (simp add: round_half_even_def Let_def)

lemma fsub_1: "fsub 100 (4691249611844266 / 2 ^ 48) = 5864062014805334 / 2 ^ 46"
  unfolding fsub_def using to_double_eval [of 6 "100 - 4691249611844266 / 2 ^ 48" 5864062014805334]
  by (simp add: round_half_even_def Let_def)

lemma fsub_2: "fsub (5864062014805334 / 2 ^ 46) 0 = 5864062014805334 / 2 ^ 46"
  unfolding fsub_def using to_double_eval [of 6 "5864062014805334 / 2 ^ 46" 5864062014805334]
  by (simp add: round_half_even_def Let_def)

lemma fsub_3: "fsub (5864062014805334 / 2 ^ 46) (4691249611844266 / 2 ^ 49) = 5277655813324801 / 2 ^ 46"
  unfolding fsub_def
  using to_double_eval [of 6 "5864062014805334 / 2 ^ 46 - 4691249611844266 / 2 ^ 49" 5277655813324801]
  by (simp add: round_half_even_def Let_def)

lemma fdiv_0: "fdiv 0 3 = 0"
  by (simp add: fdiv_def)

lemma fmul_0: "fmul 0 w = 0"
  by (simp add: fmul_def)

lemma fsub_0: "fsub 100 0 = 100"
  by (simp add: fsub_def)

lemma js_score_example: "js_score 0 2 0 1 3 = 5277655813324801 / 2 ^ 46"
proof -
  have "js_score 0 2 0 1 3
      = max 0 (fsub (fsub (fsub (fsub 100 (fmul (fdiv 0 3) 30)) (fmul (fdiv 2 3) 25))
                      (fmul (fdiv 0 3) 20)) (fmul (fdiv 1 3) 25))"
    by (simp add: js_score_def)
  also have "\<dots> = max 0 (5277655813324801 / 2 ^ 46)"
    by (simp only: fdiv_0 fmul_0 fsub_0 fdiv_2_3 fdiv_1_3 fmul_r fmul_c fsub_1 fsub_2 fsub_3)
  finally show ?thesis by simp
qed

section \<open>The aggregate score\<close>

lemma zip_indices: "zip [0 ..< length ps] ps = map (\<lambda>i. (i, ps ! i)) [0 ..< length ps]"
  by (rule nth_equalityI) simp_all

lemma length_expired:
  "length (filter (\<lambda>(i, p). P i p) (zip [0 ..< length ps] ps))
     = length (filter (\<lambda>i. P i (ps ! i)) [0 ..< length ps])"
  by (subst zip_indices) (simp add: filter_map o_def)

lemma length_findReused:
  "length (findReusedPasswords ps)
     = length (filter (\<lambda>p. 1 < length (filter (\<lambda>p'. password p' = password p) ps)) ps)"
proof -
  have "length (findReusedPasswords ps) = size (mset (findReusedPasswords ps))"
    by (simp only: size_mset)
  also have "\<dots> = size (mset (filter (\<lambda>p. 1 < length (filter (\<lambda>p'. password p' = password p) ps)) ps))"
    by (simp only: mset_findReused)
  also have "\<dots> = length (filter (\<lambda>p. 1 < length (filter (\<lambda>p'. password p' = password p) ps)) ps)"
    by (simp only: size_mset)
  finally show ?thesis .
qed

lemma report_fields:
  "weakPasswords (analyzePasswordSecurity readings ps)
     = length (filter (\<lambda>p. calculatePasswordStrength (password p) < 60) ps)"
  "reusedPasswords (analyzePasswordSecurity readings ps)
     = length (filter (\<lambda>p. 1 < length (filter (\<lambda>p'. password p' = password p) ps)) ps)"
  "expiredPasswords (analyzePasswordSecurity readings ps)
     = length (filter (\<lambda>i. isPasswordExpired (readings i) (ps ! i) 90) [0 ..< length ps])"
  "compromisedPasswords (analyzePasswordSecurity readings ps)
     = length (filter (\<lambda>p. isCompromised p = Some True) ps)"
  "totalPasswords (analyzePasswordSecurity readings ps) = length ps"
  by (simp_all add: analyzePasswordSecurity_def Let_def length_expired length_findReused)

lemma report_score:
  "securityScore (analyzePasswordSecurity readings ps) =
     (if ps = [] then 100
      else js_score (weakPasswords (analyzePasswordSecurity readings ps))
             (reusedPasswords (analyzePasswordSecurity readings ps))
             (expiredPasswords (analyzePasswordSecurity readings ps))
             (compromisedPasswords (analyzePasswordSecurity readings ps))
             (length ps))"
  by (simp add: analyzePasswordSecurity_def Let_def js_score_def)

lemma length_filter_indices: "length (filter P [0 ..< n]) \<le> n"
  using length_filter_le [of P "[0 ..< n]"] by simp

lemma report_counts_le:
  "weakPasswords (analyzePasswordSecurity readings ps) \<le> length ps"
  "reusedPasswords (analyzePasswordSecurity readings ps) \<le> length ps"
  "expiredPasswords (analyzePasswordSecurity readings ps) \<le> length ps"
  "compromisedPasswords (analyzePasswordSecurity readings ps) \<le> length ps"
  by (simp_all add: report_fields length_filter_indices)

text \<open>The expiry of an entry without expiry date and with a valid creation date, for the
  90 days of the analysis: the sum is exact.\<close>

lemma expiry_ms_90: "fmul (fmul (fmul (fmul 90 24) 60) 60) 1000 = 7776000000"
  using to_double_of_int [of 2160] to_double_of_int [of 129600] to_double_of_int [of 7776000]
    to_double_of_int [of 7776000000]
  by (simp add: fmul_def)

lemma isPasswordExpired_created:
  assumes "expiryDate p = None" and "createdAt p = Date t" and "\<bar>t\<bar> \<le> 8640000000000000"
  shows "isPasswordExpired now p 90
       = (t + 7776000000 \<le> 8640000000000000 \<and> t + 7776000000 < now)"
proof -
  have "\<bar>t + 7776000000\<bar> < 2 ^ 53" using assms(3) by simp
  then have "to_double (of_int (t + 7776000000)) = of_int (t + 7776000000)"
    by (rule to_double_of_int)
  then have sum: "fadd (of_int t) 7776000000 = of_int (t + 7776000000)"
    by (simp add: fadd_def)
  have clip: "TimeClip (of_int k) = (if \<bar>k\<bar> > 8640000000000000 then InvalidDate else Date k)" for k
  proof -
    have "(\<bar>real_of_int k\<bar> > 8640000000000000) = (\<bar>k\<bar> > 8640000000000000)"
      by linarith
    then show ?thesis by (simp add: TimeClip_def)
  qed
  have low: "\<not> t + 7776000000 < - 8640000000000000" using assms(3) by simp
  have "isPasswordExpired now p 90
      = date_greater (Date now)
          (TimeClip (fadd (of_int t) (fmul (fmul (fmul (fmul 90 24) 60) 60) 1000)))"
    using assms(1,2) by (simp add: isPasswordExpired_def)
  also have "\<dots> = date_greater (Date now) (TimeClip (of_int (t + 7776000000)))"
    by (simp only: expiry_ms_90 sum)
  also have "\<dots> = date_greater (Date now)
      (if \<bar>t + 7776000000\<bar> > 8640000000000000 then InvalidDate else Date (t + 7776000000))"
    by (simp only: clip)
  also have "\<dots> = (t + 7776000000 \<le> 8640000000000000 \<and> t + 7776000000 < now)"
    using low by (auto simp: date_greater_def abs_if)
  finally show ?thesis .
qed

section \<open>Properties of the strength score\<close>

lemma regex_test_iff: "regex_test cls s = (\<exists>c \<in> set s. cls c)"
  by (induction s) auto

text \<open>
  C5. For every password string the score computed by \<open>calculatePasswordStrength\<close> is the
  sum of 25 for length at least 8, a further 25 for length at least 12, 20 for a lowercase
  together with an uppercase letter, 15 for a digit and 15 for a symbol of the punctuation
  set, capped at 100. The function is a function of the string alone, so two calls on the
  same string agree.
\<close>

theorem strength_is_sum_of_bonuses:
  "calculatePasswordStrength s = spec_strength s"
  by (simp add: calculatePasswordStrength_def spec_strength_def regex_test_iff Let_def)

text \<open>
  C6. The scenario's entry has the password \<open>abc\<close>. Its length 3 is below 8, it has
  lowercase letters but no uppercase letter, no digit and no symbol, so no bonus applies:
  the computed strength is 0. The statement that the score is 25 fails on the code.
\<close>

theorem strength_abc_is_zero: "calculatePasswordStrength (js ''abc'') = 0"
  by (simp add: calculatePasswordStrength_def js_abc is_lower_def is_upper_def is_digit_def
      is_symbol_def symbol_set_def)

theorem strength_abc_not_25: "calculatePasswordStrength (js ''abc'') \<noteq> 25"
  by (simp add: calculatePasswordStrength_def js_abc is_lower_def is_upper_def is_digit_def
      is_symbol_def symbol_set_def)

section \<open>Properties of the aggregate score\<close>

lemma js_strong:
  "js ''Abcdefgh1234''
     = [0x41, 0x62, 0x63, 0x64, 0x65, 0x66, 0x67, 0x68, 0x31, 0x32, 0x33, 0x34]"
  "js ''Zyxwvuts9876''
     = [0x5A, 0x79, 0x78, 0x77, 0x76, 0x75, 0x74, 0x73, 0x39, 0x38, 0x37, 0x36]"
  by (simp_all add: js_def unit_of_nat_def)

lemma strength_strong:
  "calculatePasswordStrength (js ''Abcdefgh1234'') = 85"
  "calculatePasswordStrength (js ''Zyxwvuts9876'') = 85"
  by (simp_all add: calculatePasswordStrength_def js_strong is_lower_def is_upper_def
      is_digit_def is_symbol_def symbol_set_def)

lemma three_entries_fields:
  "length three_entries = 3"
  "map password three_entries
     = [js ''Abcdefgh1234'', js ''Abcdefgh1234'', js ''Zyxwvuts9876'']"
  "map isCompromised three_entries = [None, None, Some True]"
  "map createdAt three_entries
     = [Date 1704067200000, Date 1704067200000, Date 1704067200000]"
  "map expiryDate three_entries = [None, None, None]"
  by (simp_all add: three_entries_def sample_entry_def)

lemma three_entries_counts:
  "weakPasswords (analyzePasswordSecurity (\<lambda>i. 1706745600000) three_entries) = 0"
  "reusedPasswords (analyzePasswordSecurity (\<lambda>i. 1706745600000) three_entries) = 2"
  "expiredPasswords (analyzePasswordSecurity (\<lambda>i. 1706745600000) three_entries) = 0"
  "compromisedPasswords (analyzePasswordSecurity (\<lambda>i. 1706745600000) three_entries) = 1"
  "totalPasswords (analyzePasswordSecurity (\<lambda>i. 1706745600000) three_entries) = 3"
proof -
  have expired: "\<not> isPasswordExpired 1706745600000 p 90" if "p \<in> set three_entries" for p
    using that isPasswordExpired_created [of p 1704067200000 1706745600000]
    by (auto simp: three_entries_def sample_entry_def)
  have "filter (\<lambda>i. isPasswordExpired 1706745600000 (three_entries ! i) 90)
          [0 ..< length three_entries] = []"
    by (simp add: filter_empty_conv expired)
  then show "expiredPasswords (analyzePasswordSecurity (\<lambda>i. 1706745600000) three_entries) = 0"
    by (simp only: report_fields list.size)
  show "weakPasswords (analyzePasswordSecurity (\<lambda>i. 1706745600000) three_entries) = 0"
    by (simp add: report_fields three_entries_def sample_entry_def strength_strong)
  show "reusedPasswords (analyzePasswordSecurity (\<lambda>i. 1706745600000) three_entries) = 2"
    by (simp add: report_fields three_entries_def sample_entry_def js_strong)
  show "compromisedPasswords (analyzePasswordSecurity (\<lambda>i. 1706745600000) three_entries) = 1"
    by (simp add: report_fields three_entries_def sample_entry_def)
  show "totalPasswords (analyzePasswordSecurity (\<lambda>i. 1706745600000) three_entries) = 3"
    by (simp add: report_fields three_entries_def)
qed

text \<open>
  C7. For every entry collection and every sequence of clock readings, the counts of the
  report are the numbers of entries that are weak (strength below 60), reused (their
  secret is carried by more than one entry), expired (each entry at its own clock
  reading) and flagged as compromised, and the total is the number of entries. The score
  is \<open>100 - 30 (weak/total) - 25 (reused/total) - 20 (expired/total) - 25 (compromised/total)\<close>
  evaluated in double arithmetic, every quotient, product and difference rounded to the
  nearest double, with negative results raised to 0. It lies between 0 and 100 and
  differs from the exact value of the clamped expression by at most \<open>2^-43\<close>. The empty
  collection scores exactly 100, and a non-empty collection all of whose entries are
  weak, reused, expired and compromised scores exactly 0.
\<close>

theorem aggregate_score:
  "weakPasswords (analyzePasswordSecurity readings ps)
     = length (filter (\<lambda>p. calculatePasswordStrength (password p) < 60) ps)
   \<and> reusedPasswords (analyzePasswordSecurity readings ps)
     = length (filter (\<lambda>p. 1 < length (filter (\<lambda>p'. password p' = password p) ps)) ps)
   \<and> expiredPasswords (analyzePasswordSecurity readings ps)
     = length (filter (\<lambda>i. isPasswordExpired (readings i) (ps ! i) 90) [0 ..< length ps])
   \<and> compromisedPasswords (analyzePasswordSecurity readings ps)
     = length (filter (\<lambda>p. isCompromised p = Some True) ps)
   \<and> totalPasswords (analyzePasswordSecurity readings ps) = length ps
   \<and> securityScore (analyzePasswordSecurity readings ps)
     = (if ps = [] then 100
        else js_score (weakPasswords (analyzePasswordSecurity readings ps))
               (reusedPasswords (analyzePasswordSecurity readings ps))
               (expiredPasswords (analyzePasswordSecurity readings ps))
               (compromisedPasswords (analyzePasswordSecurity readings ps))
               (totalPasswords (analyzePasswordSecurity readings ps)))
   \<and> \<bar>securityScore (analyzePasswordSecurity readings ps)
        - spec_score (weakPasswords (analyzePasswordSecurity readings ps))
            (reusedPasswords (analyzePasswordSecurity readings ps))
            (expiredPasswords (analyzePasswordSecurity readings ps))
            (compromisedPasswords (analyzePasswordSecurity readings ps))
            (totalPasswords (analyzePasswordSecurity readings ps))\<bar> \<le> 1 / 2 ^ 43
   \<and> 0 \<le> securityScore (analyzePasswordSecurity readings ps)
   \<and> securityScore (analyzePasswordSecurity readings ps) \<le> 100
   \<and> (ps = [] \<longrightarrow> securityScore (analyzePasswordSecurity readings ps) = 100)
   \<and> (ps \<noteq> []
        \<and> weakPasswords (analyzePasswordSecurity readings ps) = length ps
        \<and> reusedPasswords (analyzePasswordSecurity readings ps) = length ps
        \<and> expiredPasswords (analyzePasswordSecurity readings ps) = length ps
        \<and> compromisedPasswords (analyzePasswordSecurity readings ps) = length ps
      \<longrightarrow> securityScore (analyzePasswordSecurity readings ps) = 0)"
proof -
  let ?R = "analyzePasswordSecurity readings ps"
  note fields = report_fields [of readings ps]
  have score: "securityScore ?R
     = (if ps = [] then 100
        else js_score (weakPasswords ?R) (reusedPasswords ?R) (expiredPasswords ?R)
               (compromisedPasswords ?R) (totalPasswords ?R))"
    by (simp only: report_score [of readings ps] fields(5))
  have empty: "securityScore ?R = 100" if "ps = []"
    using that score by simp
  have close: "\<bar>securityScore ?R
        - spec_score (weakPasswords ?R) (reusedPasswords ?R) (expiredPasswords ?R)
            (compromisedPasswords ?R) (totalPasswords ?R)\<bar> \<le> 1 / 2 ^ 43"
    and range: "0 \<le> securityScore ?R" "securityScore ?R \<le> 100"
  proof -
    show "\<bar>securityScore ?R
        - spec_score (weakPasswords ?R) (reusedPasswords ?R) (expiredPasswords ?R)
            (compromisedPasswords ?R) (totalPasswords ?R)\<bar> \<le> 1 / 2 ^ 43"
    proof (cases "ps = []")
      case True
      have "totalPasswords ?R = 0" using True fields(5) by simp
      then have sp: "spec_score (weakPasswords ?R) (reusedPasswords ?R) (expiredPasswords ?R)
            (compromisedPasswords ?R) (totalPasswords ?R) = 100"
        by (simp add: spec_score_def)
      show ?thesis unfolding sp empty [OF True] by simp
    next
      case False
      then have n: "0 < length ps" by simp
      show ?thesis
        using js_score_close(1) [OF n report_counts_le [of readings ps]] False
        by (simp only: score fields(5) if_False)
    qed
    show "0 \<le> securityScore ?R"
    proof (cases "ps = []")
      case True
      show ?thesis unfolding empty [OF True] by simp
    next
      case False
      then have n: "0 < length ps" by simp
      show ?thesis
        using js_score_close(2) [OF n report_counts_le [of readings ps]] False
        by (simp only: score fields(5) if_False)
    qed
    show "securityScore ?R \<le> 100"
    proof (cases "ps = []")
      case True
      show ?thesis unfolding empty [OF True] by simp
    next
      case False
      then have n: "0 < length ps" by simp
      show ?thesis
        using js_score_close(3) [OF n report_counts_le [of readings ps]] False
        by (simp only: score fields(5) if_False)
    qed
  qed
  have worst: "securityScore ?R = 0"
    if "ps \<noteq> []" "weakPasswords ?R = length ps" "reusedPasswords ?R = length ps"
      "expiredPasswords ?R = length ps" "compromisedPasswords ?R = length ps"
  proof -
    have "securityScore ?R
        = js_score (length ps) (length ps) (length ps) (length ps) (length ps)"
      using that by (simp only: report_score [of readings ps] if_False)
    then show ?thesis
      using that(1) by (simp add: js_score_worst)
  qed
  from fields score close range empty worst show ?thesis
    by (intro conjI impI) (assumption | elim conjE)+
qed

text \<open>The theorem at two entries with the same short secret, created at the first
  instant of 2024 and flagged as compromised, read at the first instant of 2025; and at
  the empty collection.\<close>

theorem aggregate_score_witness:
  "securityScore (analyzePasswordSecurity (\<lambda>i. 1735689600000)
      [sample_entry (js ''1'') (js ''abc''), sample_entry (js ''2'') (js ''abc'')]) = 0
   \<and> securityScore (analyzePasswordSecurity (\<lambda>i. 1735689600000) []) = 100"
proof -
  let ?ps = "[sample_entry (js ''1'') (js ''abc''), sample_entry (js ''2'') (js ''abc'')]"
  let ?r = "analyzePasswordSecurity (\<lambda>i. 1735689600000) ?ps"
  have nonempty: "?ps \<noteq> []"
    by simp
  have weak: "weakPasswords ?r = length ?ps"
    by (simp add: report_fields sample_fields calculatePasswordStrength_def js_abc
        is_lower_def is_upper_def is_digit_def is_symbol_def symbol_set_def)
  have reused: "reusedPasswords ?r = length ?ps"
    by (simp add: report_fields sample_fields)
  have "isPasswordExpired 1735689600000 (sample_entry i s) 90" for i s
    using isPasswordExpired_created [of "sample_entry i s" 1704067200000 1735689600000]
    by (simp add: sample_fields)
  then have expired: "expiredPasswords ?r = length ?ps"
    by (simp add: report_fields upt_rec)
  have compromised: "compromisedPasswords ?r = length ?ps"
    by (simp add: report_fields sample_fields)
  have "securityScore ?r = 0"
    using aggregate_score [of "\<lambda>i. 1735689600000" ?ps] nonempty weak reused expired compromised
    by blast
  moreover have "securityScore (analyzePasswordSecurity (\<lambda>i. 1735689600000) []) = 100"
    using aggregate_score [of "\<lambda>i. 1735689600000" "[]"] by blast
  ultimately show ?thesis by simp
qed

text \<open>
  Read in exact arithmetic the formula fails on the code. Of the three entries below,
  read one month after their creation, none is weak, two are reused, none is expired and
  one is compromised: the exact value of the expression is 75, and the computed score is
  75 + 2^-46, which prints as 75.00000000000001.
\<close>

theorem aggregate_score_is_rounded:
  "weakPasswords (analyzePasswordSecurity (\<lambda>i. 1706745600000) three_entries) = 0
   \<and> reusedPasswords (analyzePasswordSecurity (\<lambda>i. 1706745600000) three_entries) = 2
   \<and> expiredPasswords (analyzePasswordSecurity (\<lambda>i. 1706745600000) three_entries) = 0
   \<and> compromisedPasswords (analyzePasswordSecurity (\<lambda>i. 1706745600000) three_entries) = 1
   \<and> totalPasswords (analyzePasswordSecurity (\<lambda>i. 1706745600000) three_entries) = 3
   \<and> spec_score 0 2 0 1 3 = 75
   \<and> securityScore (analyzePasswordSecurity (\<lambda>i. 1706745600000) three_entries) = 75 + 1 / 2 ^ 46
   \<and> securityScore (analyzePasswordSecurity (\<lambda>i. 1706745600000) three_entries) \<noteq> spec_score 0 2 0 1 3"
proof -
  have spec: "spec_score 0 2 0 1 3 = 75"
    by (simp add: spec_score_def)
  have "three_entries \<noteq> []"
    by (simp add: three_entries_def)
  then have "securityScore (analyzePasswordSecurity (\<lambda>i. 1706745600000) three_entries) = js_score 0 2 0 1 3"
    by (simp only: report_score three_entries_counts three_entries_fields(1) if_False)
  also have "\<dots> = 5277655813324801 / 2 ^ 46"
    by (rule js_score_example)
  also have "\<dots> = 75 + 1 / 2 ^ 46"
    by simp
  finally have score: "securityScore (analyzePasswordSecurity (\<lambda>i. 1706745600000) three_entries) = 75 + 1 / 2 ^ 46" .
  have "securityScore (analyzePasswordSecurity (\<lambda>i. 1706745600000) three_entries) \<noteq> spec_score 0 2 0 1 3"
    unfolding score spec by simp
  with spec score three_entries_counts show ?thesis
    by (intro conjI) assumption+
qed

section \<open>Properties of importData\<close>




section \<open>Properties of encrypt and decrypt\<close>

text \<open>
  C1. For every passphrase, every state of the random source (so every salt and nonce)
  and every plaintext that is well-formed UTF-16 and does not begin with U+FEFF,
  provided the platform's AES-GCM decryption inverts its encryption: \<open>encrypt\<close> returns
  a blob when the salt, the nonce and the ciphertext with its tag, 48 bytes and the
  output of \<open>crypto.subtle.encrypt\<close>, are no more than the engine accepts as arguments
  of one call, and throws \<open>Encryption failed\<close> when they are more; and every blob it
  returns decrypts under the same passphrase to exactly the plaintext. The two
  conditions on the plaintext are those of the text encoding: \<open>TextEncoder\<close> replaces an
  unpaired surrogate by U+FFFD and \<open>TextDecoder\<close> drops a leading byte order mark.
\<close>

theorem encrypt_decrypt_roundtrip:
  assumes "decrypt_inverts_encrypt api"
    and "isWellFormed p" and "p = [] \<or> hd p \<noteq> 0xFEFF"
  shows "(48 + length (ciphertext_of api r p k) \<le> max_arguments api \<longrightarrow>
            fst (encrypt api r p k)
              = Inr (base64_encode (drawn_salt r @ drawn_iv r @ ciphertext_of api r p k)))
     \<and> (max_arguments api < 48 + length (ciphertext_of api r p k) \<longrightarrow>
            fst (encrypt api r p k) = Inl (Error ''Encryption failed''))
     \<and> (\<forall>blob. fst (encrypt api r p k) = Inr blob \<longrightarrow> decrypt api blob k = Inr p)"
proof -
  have inverted: "decrypt api blob k = Inr p" if "fst (encrypt api r p k) = Inr blob" for blob
  proof -
    have "encrypt api r p k = (Inr blob, snd (encrypt api r p k))"
      using that by (simp add: prod_eq_iff)
    from decrypt_encrypt_general [OF assms(1) this] show ?thesis
      by (simp add: decode_encode_wellformed [OF assms(2) assms(3)])
  qed
  show ?thesis
    using inverted by (simp add: encrypt_unfold)
qed

text \<open>The theorem on the executable platform with the passphrase \<open>pw\<close>: at the plaintext
  \<open>abc\<close>, where \<open>encrypt\<close> returns a blob, and at the plaintext of 65536 letters, where
  it throws.\<close>

theorem encrypt_decrypt_roundtrip_witness:
  "decrypt_inverts_encrypt demo_crypto
   \<and> isWellFormed (js ''abc'')
   \<and> hd (js ''abc'') \<noteq> 0xFEFF
   \<and> 48 + length (ciphertext_of demo_crypto demo_rng (js ''abc'') (js ''pw''))
       \<le> max_arguments demo_crypto
   \<and> fst (encrypt demo_crypto demo_rng (js ''abc'') (js ''pw''))
       = Inr (js ''AwoRGB8mLTQ7QklQV15lbHN6gYiPlp2kq7K5wMfO1dzj6vH4/wYNFBsiKTA3PkVMYWJjdXV1dXV1dXV1dXV1dXV1dQ=='')
   \<and> decrypt demo_crypto
         (js ''AwoRGB8mLTQ7QklQV15lbHN6gYiPlp2kq7K5wMfO1dzj6vH4/wYNFBsiKTA3PkVMYWJjdXV1dXV1dXV1dXV1dXV1dQ=='')
         (js ''pw'') = Inr (js ''abc'')
   \<and> isWellFormed long_plaintext
   \<and> hd long_plaintext \<noteq> 0xFEFF
   \<and> max_arguments demo_crypto
       < 48 + length (ciphertext_of demo_crypto demo_rng long_plaintext (js ''pw''))
   \<and> fst (encrypt demo_crypto demo_rng long_plaintext (js ''pw''))
       = Inl (Error ''Encryption failed'')"
proof -
  have bom: "js ''abc'' = [] \<or> hd (js ''abc'') \<noteq> 0xFEFF"
    by (simp add: js_abc)
  have blob: "fst (encrypt demo_crypto demo_rng (js ''abc'') (js ''pw''))
       = Inr (js ''AwoRGB8mLTQ7QklQV15lbHN6gYiPlp2kq7K5wMfO1dzj6vH4/wYNFBsiKTA3PkVMYWJjdXV1dXV1dXV1dXV1dXV1dQ=='')"
    by (simp add: demo_encrypt_abc)
  have fits: "48 + length (ciphertext_of demo_crypto demo_rng (js ''abc'') (js ''pw''))
       \<le> max_arguments demo_crypto"
    unfolding demo_ciphertext encode_abc by (simp add: demo_crypto_def)
  have "decrypt demo_crypto
         (js ''AwoRGB8mLTQ7QklQV15lbHN6gYiPlp2kq7K5wMfO1dzj6vH4/wYNFBsiKTA3PkVMYWJjdXV1dXV1dXV1dXV1dXV1dQ=='')
         (js ''pw'') = Inr (js ''abc'')"
    using encrypt_decrypt_roundtrip [OF demo_inverts wellformed_abc bom, of demo_rng "js ''pw''"]
      blob by blast
  moreover have "hd (js ''abc'') \<noteq> 0xFEFF"
    by (simp add: js_abc)
  moreover have "fst (encrypt demo_crypto demo_rng long_plaintext (js ''pw''))
       = Inl (Error ''Encryption failed'')"
    using encrypt_decrypt_roundtrip [OF demo_inverts long_plaintext_facts(1), of demo_rng "js ''pw''"]
      long_plaintext_facts(2,3) by blast
  ultimately show ?thesis
    using demo_inverts wellformed_abc blob fits long_plaintext_facts by (intro conjI) assumption+
qed

text \<open>
  Without the two conditions on the plaintext the round trip fails: the plaintext U+FEFF
  comes back as the empty string, and the unpaired surrogate U+D800 comes back as U+FFFD.
\<close>

theorem roundtrip_fails_on_bom_and_lone_surrogate:
  "fst (encrypt demo_crypto demo_rng [0xFEFF] (js ''pw''))
     = Inr (js ''AwoRGB8mLTQ7QklQV15lbHN6gYiPlp2kq7K5wMfO1dzj6vH4/wYNFBsiKTA3PkVM77u/uLi4uLi4uLi4uLi4uLi4uA=='')
   \<and> decrypt demo_crypto
         (js ''AwoRGB8mLTQ7QklQV15lbHN6gYiPlp2kq7K5wMfO1dzj6vH4/wYNFBsiKTA3PkVM77u/uLi4uLi4uLi4uLi4uLi4uA=='')
         (js ''pw'') = Inr []
   \<and> fst (encrypt demo_crypto demo_rng [0xD800] (js ''pw''))
     = Inr (js ''AwoRGB8mLTQ7QklQV15lbHN6gYiPlp2kq7K5wMfO1dzj6vH4/wYNFBsiKTA3PkVM77+9urq6urq6urq6urq6urq6ug=='')
   \<and> decrypt demo_crypto
         (js ''AwoRGB8mLTQ7QklQV15lbHN6gYiPlp2kq7K5wMfO1dzj6vH4/wYNFBsiKTA3PkVM77+9urq6urq6urq6urq6urq6ug=='')
         (js ''pw'') = Inr [0xFFFD]"
proof -
  let ?r' = "\<lambda>i. demo_rng (48 + i)"
  have e1: "encrypt demo_crypto demo_rng [0xFEFF] (js ''pw'')
      = (Inr (js ''AwoRGB8mLTQ7QklQV15lbHN6gYiPlp2kq7K5wMfO1dzj6vH4/wYNFBsiKTA3PkVM77u/uLi4uLi4uLi4uLi4uLi4uA==''), ?r')"
    using demo_encrypt [of "[0xFEFF]"] by (simp add: prod_eq_iff encode_bom blob_bom encrypt_unfold)
  have e2: "encrypt demo_crypto demo_rng [0xD800] (js ''pw'')
      = (Inr (js ''AwoRGB8mLTQ7QklQV15lbHN6gYiPlp2kq7K5wMfO1dzj6vH4/wYNFBsiKTA3PkVM77+9urq6urq6urq6urq6urq6ug==''), ?r')"
    using demo_encrypt [of "[0xD800]"]
    by (simp add: prod_eq_iff encode_lone_surrogate blob_lone encrypt_unfold)
  have d1: "decrypt demo_crypto
         (js ''AwoRGB8mLTQ7QklQV15lbHN6gYiPlp2kq7K5wMfO1dzj6vH4/wYNFBsiKTA3PkVM77u/uLi4uLi4uLi4uLi4uLi4uA=='')
         (js ''pw'') = Inr []"
    using decrypt_encrypt_general [OF demo_inverts e1] by (simp add: encode_bom decode_bom)
  have d2: "decrypt demo_crypto
         (js ''AwoRGB8mLTQ7QklQV15lbHN6gYiPlp2kq7K5wMfO1dzj6vH4/wYNFBsiKTA3PkVM77+9urq6urq6urq6urq6urq6ug=='')
         (js ''pw'') = Inr [0xFFFD]"
    using decrypt_encrypt_general [OF demo_inverts e2]
    by (simp add: encode_lone_surrogate decode_replacement)
  from e1 e2 d1 d2 show ?thesis by simp
qed

text \<open>
  C3. Every blob that \<open>encrypt\<close> returns is the base64 text of salt, nonce and
  ciphertext with tag, in this order, and \<open>atob\<close> recovers these bytes from it. The salt
  is the 32 bytes and the nonce the following 16 bytes that this call draws from the
  random source, which it leaves advanced by 48 bytes. The key is the one
  \<open>crypto.subtle.deriveKey\<close> returns for PBKDF2 with SHA-256, that salt, 210000
  iterations and the passphrase bytes as key material, as a 256-bit AES-GCM key.
\<close>

theorem blob_format:
  assumes "encrypt api r data pw = (Inr blob, r')"
  shows "blob = base64_encode (drawn_salt r @ drawn_iv r @ ciphertext_of api r data pw)
     \<and> atob blob = Inr (map ucast (drawn_salt r @ drawn_iv r @ ciphertext_of api r data pw))
     \<and> length (drawn_salt r) = 32 \<and> length (drawn_iv r) = 16
     \<and> drawn_salt r = fst (getRandomValues SALT_LENGTH r)
     \<and> drawn_iv r = fst (getRandomValues IV_LENGTH (snd (getRandomValues SALT_LENGTH r)))
     \<and> r' = snd (getRandomValues IV_LENGTH (snd (getRandomValues SALT_LENGTH r)))
     \<and> ciphertext_of api r data pw
         = subtle_encrypt api
             \<lparr> gcm_name = ''AES-GCM'', gcm_iv = drawn_iv r, gcm_tagLength = 128 \<rparr>
             (subtle_deriveKey api
                \<lparr> kdf_name = ''PBKDF2'', kdf_salt = drawn_salt r,
                  kdf_iterations = PBKDF2_ITERATIONS, kdf_hash = ''SHA-256'' \<rparr>
                (TextEncoder_encode pw)
                \<lparr> key_name = ''AES-GCM'', key_length = 256 \<rparr>)
             (TextEncoder_encode data)
     \<and> 210000 \<le> PBKDF2_ITERATIONS \<and> KEY_LENGTH * 8 = 256"
proof -
  have blob: "blob = base64_encode (drawn_salt r @ drawn_iv r @ ciphertext_of api r data pw)"
    and r': "r' = (\<lambda>i. r (48 + i))"
    using assms unfolding encrypt_unfold by (simp_all split: if_splits)
  have "atob blob = Inr (map ucast (drawn_salt r @ drawn_iv r @ ciphertext_of api r data pw))"
    unfolding blob by (rule atob_base64_encode)
  moreover have "r' = snd (getRandomValues IV_LENGTH (snd (getRandomValues SALT_LENGTH r)))"
    unfolding r' by (simp only: draw_salt draw_iv snd_conv)
  moreover have "drawn_iv r = fst (getRandomValues IV_LENGTH (snd (getRandomValues SALT_LENGTH r)))"
    by (simp only: draw_salt draw_iv snd_conv fst_conv)
  moreover have "drawn_salt r = fst (getRandomValues SALT_LENGTH r)"
    by (simp only: draw_salt fst_conv)
  moreover have "ciphertext_of api r data pw
         = subtle_encrypt api
             \<lparr> gcm_name = ''AES-GCM'', gcm_iv = drawn_iv r, gcm_tagLength = 128 \<rparr>
             (subtle_deriveKey api
                \<lparr> kdf_name = ''PBKDF2'', kdf_salt = drawn_salt r,
                  kdf_iterations = PBKDF2_ITERATIONS, kdf_hash = ''SHA-256'' \<rparr>
                (TextEncoder_encode pw)
                \<lparr> key_name = ''AES-GCM'', key_length = 256 \<rparr>)
             (TextEncoder_encode data)"
    by (simp add: ciphertext_of_def PBKDF2_ITERATIONS_def)
  moreover have "210000 \<le> PBKDF2_ITERATIONS" "KEY_LENGTH * 8 = 256"
    by (simp_all add: PBKDF2_ITERATIONS_def KEY_LENGTH_def)
  ultimately show ?thesis
    using blob length_drawn [of r] by (intro conjI) assumption+
qed

text \<open>The theorem at the plaintext \<open>abc\<close> and passphrase \<open>pw\<close> on the executable platform.\<close>

theorem blob_format_witness:
  "atob (js ''AwoRGB8mLTQ7QklQV15lbHN6gYiPlp2kq7K5wMfO1dzj6vH4/wYNFBsiKTA3PkVMYWJjdXV1dXV1dXV1dXV1dXV1dQ=='')
     = Inr (map ucast (drawn_salt demo_rng @ drawn_iv demo_rng
                        @ ciphertext_of demo_crypto demo_rng (js ''abc'') (js ''pw'')))"
  using blob_format [OF demo_encrypt_abc] by blast

section \<open>Properties of reuse detection\<close>

text \<open>
  C8. \<open>findReusedPasswords\<close> returns, as a multiset, exactly the entries whose secret is
  carried by more than one entry of the list: every member of every group of size above
  one, and nothing else. For three entries with the secrets \<open>x\<close>, \<open>x\<close> and \<open>y\<close>,
  whatever their other fields, it returns 2 entries.
\<close>

theorem reuse_reports_whole_groups:
  "mset (findReusedPasswords ps)
     = mset (filter (\<lambda>e. length (filter (\<lambda>e'. password e' = password e) ps) > 1) ps)
   \<and> length (findReusedPasswords
         [a\<lparr> password := js ''x'' \<rparr>, b\<lparr> password := js ''x'' \<rparr>, c\<lparr> password := js ''y'' \<rparr>]) = 2"
proof -
  let ?ps = "[a\<lparr> password := js ''x'' \<rparr>, b\<lparr> password := js ''x'' \<rparr>, c\<lparr> password := js ''y'' \<rparr>]"
  have "length (findReusedPasswords ?ps) = size (mset (findReusedPasswords ?ps))"
    by simp
  also have "\<dots> = size (mset (filter
      (\<lambda>e. length (filter (\<lambda>e'. password e' = password e) ?ps) > 1) ?ps))"
    by (simp only: mset_findReused)
  also have "\<dots> = 2"
    by (simp add: js_x js_y)
  finally show ?thesis
    by (simp only: mset_findReused simp_thms)
qed

section \<open>Properties of the breach check\<close>

text \<open>
  C9. The promise of \<open>checkPasswordBreach\<close> never rejects: it resolves to a boolean for
  every password, platform and network. Whenever the body of the \<open>try\<close> throws, and so
  whenever the digest rejects, every fetch rejects, or no response body can be read, it
  resolves to false.
\<close>

theorem breach_check_never_rejects:
  "(\<exists>answer. checkPasswordBreach api net pw = Inr answer)
   \<and> (\<forall>e. breach_lookup api net pw = Inl e \<longrightarrow> checkPasswordBreach api net pw = Inr False)
   \<and> (\<forall>e. subtle_digest api ''SHA-1'' (TextEncoder_encode pw) = Inl e
          \<longrightarrow> checkPasswordBreach api net pw = Inr False)
   \<and> ((\<forall>u. \<exists>e. fetch net u = Inl e) \<longrightarrow> checkPasswordBreach api net pw = Inr False)
   \<and> ((\<forall>r. \<exists>e. response_text net r = Inl e) \<longrightarrow> checkPasswordBreach api net pw = Inr False)"
proof (intro conjI allI impI)
  show "\<exists>answer. checkPasswordBreach api net pw = Inr answer"
    by (cases "breach_lookup api net pw") (auto simp: checkPasswordBreach_def)
next
  fix e assume "breach_lookup api net pw = Inl e"
  then show "checkPasswordBreach api net pw = Inr False"
    by (simp add: checkPasswordBreach_def)
next
  fix e assume "subtle_digest api ''SHA-1'' (TextEncoder_encode pw) = Inl e"
  then show "checkPasswordBreach api net pw = Inr False"
    by (simp add: checkPasswordBreach_def breach_lookup_def)
next
  assume down: "\<forall>u. \<exists>e. fetch net u = Inl e"
  show "checkPasswordBreach api net pw = Inr False"
  proof (cases "subtle_digest api ''SHA-1'' (TextEncoder_encode pw)")
    case (Inl e)
    then show ?thesis by (simp add: checkPasswordBreach_def breach_lookup_def)
  next
    case (Inr hashArray)
    let ?u = "js ''https://api.pwnedpasswords.com/range/''
              @ take 5 (toUpperCase (concat (map (\<lambda>b. padStart2 (toString16 b)) hashArray)))"
    obtain e where "fetch net ?u = Inl e" using down by blast
    then show ?thesis
      using Inr by (simp add: checkPasswordBreach_def breach_lookup_def Let_def)
  qed
next
  assume bad: "\<forall>r. \<exists>e. response_text net r = Inl e"
  show "checkPasswordBreach api net pw = Inr False"
  proof (cases "breach_lookup api net pw")
    case (Inl e)
    then show ?thesis by (simp add: checkPasswordBreach_def)
  next
    case (Inr answer)
    then obtain r body where "response_text net r = Inr body"
      by (auto simp: breach_lookup_def Let_def split: sum.splits)
    with bad show ?thesis by (metis sum.distinct(1))
  qed
qed

text \<open>The theorem on a platform whose digest rejects, on a network that is down, and on
  a network whose response bodies cannot be read.\<close>

theorem breach_check_never_rejects_witness:
  "checkPasswordBreach rejecting_digest_crypto offline_network (js ''abc'') = Inr False
   \<and> checkPasswordBreach demo_crypto offline_network (js ''abc'') = Inr False
   \<and> checkPasswordBreach demo_crypto unreadable_network (js ''abc'') = Inr False"
proof -
  have digest: "subtle_digest rejecting_digest_crypto ''SHA-1'' (TextEncoder_encode (js ''abc''))
      = Inl (Error ''OperationError'')"
    by (simp add: rejecting_digest_crypto_def)
  have down: "\<forall>u. \<exists>e. fetch offline_network u = Inl e"
    by (simp add: offline_network_def)
  have unreadable: "\<forall>r. \<exists>e. response_text unreadable_network r = Inl e"
    by (simp add: unreadable_network_def)
  have "checkPasswordBreach rejecting_digest_crypto offline_network (js ''abc'') = Inr False"
    using breach_check_never_rejects [of rejecting_digest_crypto offline_network "js ''abc''"]
      digest by blast
  moreover have "checkPasswordBreach demo_crypto offline_network (js ''abc'') = Inr False"
    using breach_check_never_rejects [of demo_crypto offline_network "js ''abc''"] down
    by blast
  moreover have "checkPasswordBreach demo_crypto unreadable_network (js ''abc'') = Inr False"
    using breach_check_never_rejects [of demo_crypto unreadable_network "js ''abc''"]
      unreadable by blast
  ultimately show ?thesis by simp
qed

section \<open>Decryption fails closed\<close>




section \<open>Properties of signup\<close>

text \<open>
  C4. If the identity hash of the passphrase cannot be computed, \<open>signup\<close> returns false
  and leaves the world as it was. Otherwise let \<open>h\<close> be the hash. If a vault blob (a
  non-empty string) is stored under the storage key of \<open>h\<close>, \<open>signup\<close> returns false
  and leaves the whole world, and so the stored blob, as it was. If nothing or the empty
  string is stored under that key, the encryption of the empty-vault JSON returns a blob
  and the four storage writes of the call succeed, \<open>signup\<close> returns true, the blob is
  stored under the key of \<open>h\<close> and no other vault is touched, the user list has an entry
  for \<open>h\<close>, the session holds the hash and the passphrase, and the application is
  authenticated with an empty password list; the stored blob decrypts under the
  passphrase to the empty-vault JSON when AES-GCM decryption inverts encryption and the
  time stamp is well-formed text. If instead the encryption throws or the first write
  throws, \<open>signup\<close> returns false and the vaults, the user list and the session are as
  they were; and if the first write succeeds and one of the three later writes throws,
  \<open>signup\<close> returns false and the blob stays stored.
\<close>

theorem signup_exists_or_creates:
  "(\<forall>e. getUserHash api pw = Inl e \<longrightarrow> signup api pw w = (False, w))
   \<and> (\<forall>h. getUserHash api pw = Inr h \<longrightarrow>
        (\<forall>blob. localVaults w (getUserStorageKey h) = Some blob \<and> blob \<noteq> []
            \<longrightarrow> signup api pw w = (False, w))
      \<and> (\<forall>blob. \<not> truthy (localVaults w (getUserStorageKey h))
              \<and> fst (encrypt api (random w) (initialData_json (clock w 0)) pw) = Inr blob
              \<and> \<not> write_faults w 0 \<and> \<not> write_faults w 1
              \<and> \<not> write_faults w 2 \<and> \<not> write_faults w 3
            \<longrightarrow> fst (signup api pw w) = True
              \<and> localVaults (snd (signup api pw w))
                  = (localVaults w)(getUserStorageKey h \<mapsto> blob)
              \<and> (\<exists>u \<in> set (getAllUsers (snd (signup api pw w))). user_hash u = h)
              \<and> sessionItems (snd (signup api pw w)) ''currentUserHash'' = Some h
              \<and> sessionItems (snd (signup api pw w)) ''masterPassword'' = Some pw
              \<and> isAuthenticated (app (snd (signup api pw w)))
              \<and> passwords (app (snd (signup api pw w))) = []
              \<and> (decrypt_inverts_encrypt api \<and> isWellFormed (clock w 0)
                   \<longrightarrow> decrypt api blob pw = Inr (initialData_json (clock w 0))))
      \<and> (\<not> truthy (localVaults w (getUserStorageKey h))
          \<and> ((\<exists>e. fst (encrypt api (random w) (initialData_json (clock w 0)) pw) = Inl e)
               \<or> write_faults w 0)
            \<longrightarrow> fst (signup api pw w) = False
              \<and> localVaults (snd (signup api pw w)) = localVaults w
              \<and> localUsers (snd (signup api pw w)) = localUsers w
              \<and> sessionItems (snd (signup api pw w)) = sessionItems w)
      \<and> (\<forall>blob. \<not> truthy (localVaults w (getUserStorageKey h))
              \<and> fst (encrypt api (random w) (initialData_json (clock w 0)) pw) = Inr blob
              \<and> \<not> write_faults w 0
              \<and> (write_faults w 1 \<or> write_faults w 2 \<or> write_faults w 3)
            \<longrightarrow> fst (signup api pw w) = False
              \<and> localVaults (snd (signup api pw w))
                  = (localVaults w)(getUserStorageKey h \<mapsto> blob)))"
proof (intro conjI allI impI; (elim conjE)?)
  fix e
  assume "getUserHash api pw = Inl e"
  then show "signup api pw w = (False, w)"
    by (rule signup_no_hash)
next
  fix h blob
  assume "getUserHash api pw = Inr h"
    "localVaults w (getUserStorageKey h) = Some blob" "blob \<noteq> []"
  then show "signup api pw w = (False, w)"
    by (rule signup_exists)
next
  fix h blob
  assume hash: "getUserHash api pw = Inr h"
    and none: "\<not> truthy (localVaults w (getUserStorageKey h))"
    and enc: "fst (encrypt api (random w) (initialData_json (clock w 0)) pw) = Inr blob"
    and ok: "\<not> write_faults w 0" "\<not> write_faults w 1" "\<not> write_faults w 2"
      "\<not> write_faults w 3"
  have e: "encrypt api (random w) (initialData_json (clock w 0)) pw
      = (Inr blob, snd (encrypt api (random w) (initialData_json (clock w 0)) pw))"
    using enc by (simp add: prod_eq_iff)
  note s = signup_creates [OF hash none e ok]
  show "fst (signup api pw w) = True"
    by (rule s(1))
  show "localVaults (snd (signup api pw w)) = (localVaults w)(getUserStorageKey h \<mapsto> blob)"
    by (rule s(2))
  show "\<exists>u \<in> set (getAllUsers (snd (signup api pw w))). user_hash u = h"
    by (rule s(3))
  show "sessionItems (snd (signup api pw w)) ''currentUserHash'' = Some h"
    by (rule s(4))
  show "sessionItems (snd (signup api pw w)) ''masterPassword'' = Some pw"
    by (rule s(5))
  show "isAuthenticated (app (snd (signup api pw w)))"
    by (rule s(6))
  show "passwords (app (snd (signup api pw w))) = []"
    by (rule s(7))
  show "decrypt api blob pw = Inr (initialData_json (clock w 0))"
    if "decrypt_inverts_encrypt api" "isWellFormed (clock w 0)"
    using that e by (rule signup_blob_decrypts)
next
  fix h
  assume hash: "getUserHash api pw = Inr h"
    and none: "\<not> truthy (localVaults w (getUserStorageKey h))"
    and fails: "(\<exists>e. fst (encrypt api (random w) (initialData_json (clock w 0)) pw) = Inl e)
               \<or> write_faults w 0"
  have "fst (signup api pw w) = False \<and> localVaults (snd (signup api pw w)) = localVaults w
      \<and> localUsers (snd (signup api pw w)) = localUsers w
      \<and> sessionItems (snd (signup api pw w)) = sessionItems w"
  proof (cases "fst (encrypt api (random w) (initialData_json (clock w 0)) pw)")
    case (Inl e)
    then have "encrypt api (random w) (initialData_json (clock w 0)) pw
        = (Inl e, snd (encrypt api (random w) (initialData_json (clock w 0)) pw))"
      by (simp add: prod_eq_iff)
    from signup_encrypt_fails [OF hash none this] show ?thesis
      by simp
  next
    case (Inr blob)
    then have e: "encrypt api (random w) (initialData_json (clock w 0)) pw
        = (Inr blob, snd (encrypt api (random w) (initialData_json (clock w 0)) pw))"
      by (simp add: prod_eq_iff)
    have "write_faults w 0" using fails Inr by simp
    from signup_first_write_fails(1,2,3,4) [OF hash none e this] show ?thesis by simp
  qed
  then show "fst (signup api pw w) = False"
    and "localVaults (snd (signup api pw w)) = localVaults w"
    and "localUsers (snd (signup api pw w)) = localUsers w"
    and "sessionItems (snd (signup api pw w)) = sessionItems w"
    by simp_all
next
  fix h blob
  assume hash: "getUserHash api pw = Inr h"
    and none: "\<not> truthy (localVaults w (getUserStorageKey h))"
    and enc: "fst (encrypt api (random w) (initialData_json (clock w 0)) pw) = Inr blob"
    and ok: "\<not> write_faults w 0"
    and later: "write_faults w 1 \<or> write_faults w 2 \<or> write_faults w 3"
  have e: "encrypt api (random w) (initialData_json (clock w 0)) pw
      = (Inr blob, snd (encrypt api (random w) (initialData_json (clock w 0)) pw))"
    using enc by (simp add: prod_eq_iff)
  note s = signup_later_write_fails [OF hash none e ok later]
  show "fst (signup api pw w) = False"
    by (rule s(1))
  show "localVaults (snd (signup api pw w)) = (localVaults w)(getUserStorageKey h \<mapsto> blob)"
    by (rule s(2))
qed

text \<open>The theorem on the executable platform: in the world with a stored vault, in the
  empty world, and in the empty world whose storage is full.\<close>

theorem signup_exists_or_creates_witness:
  "getUserHash demo_crypto (js ''pw'') = Inr (js ''7077'')
   \<and> signup demo_crypto (js ''pw'') demo_world_registered = (False, demo_world_registered)
   \<and> fst (signup demo_crypto (js ''pw'') demo_world) = True
   \<and> localVaults (snd (signup demo_crypto (js ''pw'') demo_world))
         (getUserStorageKey (js ''7077'')) = Some demo_signup_blob
   \<and> decrypt demo_crypto demo_signup_blob (js ''pw'')
       = Inr (initialData_json (js ''2024-01-01T00:00:00.000Z''))
   \<and> fst (signup demo_crypto (js ''pw'') demo_world_full) = False
   \<and> localVaults (snd (signup demo_crypto (js ''pw'') demo_world_full))
       = localVaults demo_world_full"
proof -
  have registered:
    "localVaults demo_world_registered (getUserStorageKey (js ''7077'')) = Some sample_blob"
    by (simp add: demo_world_registered_def)
  have nonempty: "sample_blob \<noteq> []"
    by (simp add: sample_blob_def js_def)
  have fresh: "\<not> truthy (localVaults demo_world (getUserStorageKey (js ''7077'')))"
    "\<not> truthy (localVaults demo_world_full (getUserStorageKey (js ''7077'')))"
    by (simp_all add: demo_world_def demo_world_full_def truthy_def)
  have enc: "fst (encrypt demo_crypto (random demo_world)
                    (initialData_json (clock demo_world 0)) (js ''pw'')) = Inr demo_signup_blob"
    by (simp add: demo_world_def demo_signup_encrypt)
  have writes: "\<not> write_faults demo_world 0" "\<not> write_faults demo_world 1"
    "\<not> write_faults demo_world 2" "\<not> write_faults demo_world 3"
    by (simp_all add: demo_world_def)
  have full: "write_faults demo_world_full 0"
    by (simp add: demo_world_full_def)
  have wf: "isWellFormed (clock demo_world 0)"
    by (simp add: demo_world_def wellformed_js)
  note t1 = signup_exists_or_creates [of demo_crypto "js ''pw''" demo_world_registered]
  note t2 = signup_exists_or_creates [of demo_crypto "js ''pw''" demo_world]
  note t3 = signup_exists_or_creates [of demo_crypto "js ''pw''" demo_world_full]
  have "signup demo_crypto (js ''pw'') demo_world_registered = (False, demo_world_registered)"
    using t1 demo_hash registered nonempty by blast
  moreover have "fst (signup demo_crypto (js ''pw'') demo_world) = True"
    using t2 demo_hash fresh(1) enc writes by blast
  moreover have "localVaults (snd (signup demo_crypto (js ''pw'') demo_world))
      = (localVaults demo_world)(getUserStorageKey (js ''7077'') \<mapsto> demo_signup_blob)"
    using t2 demo_hash fresh(1) enc writes by blast
  moreover have "decrypt demo_crypto demo_signup_blob (js ''pw'')
      = Inr (initialData_json (clock demo_world 0))"
    using t2 demo_hash fresh(1) enc writes wf demo_inverts by blast
  moreover have "clock demo_world 0 = js ''2024-01-01T00:00:00.000Z''"
    by (simp add: demo_world_def)
  moreover have "fst (signup demo_crypto (js ''pw'') demo_world_full) = False
      \<and> localVaults (snd (signup demo_crypto (js ''pw'') demo_world_full))
          = localVaults demo_world_full"
    using t3 demo_hash fresh(2) full by blast
  ultimately show ?thesis
    using demo_hash by simp
qed

text \<open>
  The statement that \<open>signup\<close> succeeds whenever no vault blob exists fails on the code:
  every exception inside its \<open>try\<close> block ends it with \<open>false\<close>. In the empty world
  whose storage is full, the first \<open>setItem\<close> throws, \<open>signup\<close> returns false and no
  vault is stored; and on a platform whose digest rejects, \<open>signup\<close> returns false in the
  empty world and leaves it as it was.
\<close>

theorem signup_fails_without_stored_vault:
  "localVaults demo_world_full = Map.empty
   \<and> fst (signup demo_crypto (js ''pw'') demo_world_full) = False
   \<and> localVaults (snd (signup demo_crypto (js ''pw'') demo_world_full)) = Map.empty
   \<and> localUsers (snd (signup demo_crypto (js ''pw'') demo_world_full)) = None
   \<and> localVaults demo_world = Map.empty
   \<and> signup rejecting_digest_crypto (js ''pw'') demo_world = (False, demo_world)"
proof -
  have none: "\<not> truthy (localVaults demo_world_full (getUserStorageKey (js ''7077'')))"
    by (simp add: demo_world_def demo_world_full_def truthy_def)
  have e: "encrypt demo_crypto (random demo_world_full)
             (initialData_json (clock demo_world_full 0)) (js ''pw'')
      = (Inr demo_signup_blob, \<lambda>i. demo_rng (48 + i))"
    by (simp add: demo_world_def demo_world_full_def demo_signup_encrypt)
  have full: "write_faults demo_world_full 0"
    by (simp add: demo_world_full_def)
  note f = signup_first_write_fails [OF demo_hash none e full]
  have empty: "localVaults demo_world_full = Map.empty" "localUsers demo_world_full = None"
    "localVaults demo_world = Map.empty"
    by (simp_all add: demo_world_def demo_world_full_def)
  have "signup rejecting_digest_crypto (js ''pw'') demo_world = (False, demo_world)"
    by (simp add: signup_def getUserHash_def rejecting_digest_crypto_def)
  with f(1,2,3) empty show ?thesis by simp
qed

end
